theory Spec2Isabelle
  imports Main
begin

section \<open>Python strings and the regular expressions of \<open>db.py\<close>\<close>

text \<open>
  Strings are byte strings. The classes \<open>\s\<close>, \<open>\d\<close> and \<open>\w\<close> of Python's \<open>re\<close> and the
  characters removed by \<open>str.strip\<close> are modelled on their ASCII members, and \<open>re.I\<close> folds
  the ASCII letters: the flat files the program reads are ASCII. Every regular expression
  the program uses is a fixed pattern; each is a function of its own here, named after the
  place that uses it, with the pattern quoted in its comment.
\<close>

definition newline :: char where
  "newline = CHR 0x0A"

definition is_space :: "char \<Rightarrow> bool" where
  "is_space c = (c \<in> set [CHR 0x09, CHR 0x0A, CHR 0x0B, CHR 0x0C, CHR 0x0D,
                             CHR 0x1C, CHR 0x1D, CHR 0x1E, CHR 0x1F, CHR '' ''])"

definition is_digit :: "char \<Rightarrow> bool" where
  "is_digit c = (c \<in> set ''0123456789'')"

definition is_word :: "char \<Rightarrow> bool" where
  "is_word c = (c \<in> set ''abcdefghijklmnopqrstuvwxyzABCDEFGHIJKLMNOPQRSTUVWXYZ0123456789_'')"

text \<open>\<open>c.lower()\<close> on an ASCII letter, used for matching under \<open>re.I\<close>.\<close>

definition lower_chr :: "char \<Rightarrow> char" where
  "lower_chr c = (case map_of (zip ''ABCDEFGHIJKLMNOPQRSTUVWXYZ'' ''abcdefghijklmnopqrstuvwxyz'') c of
                    Some l \<Rightarrow> l | None \<Rightarrow> c)"

text \<open>\<open>s.startswith(p)\<close>.\<close>

fun startswith :: "string \<Rightarrow> string \<Rightarrow> bool" where
  "startswith s [] = True"
| "startswith [] (p # ps) = False"
| "startswith (c # cs) (p # ps) = (c = p \<and> startswith cs ps)"

text \<open>\<open>p in s\<close> on two strings: \<open>p\<close> occurs in \<open>s\<close> as a substring.\<close>

fun contains :: "string \<Rightarrow> string \<Rightarrow> bool" where
  "contains [] p = (p = [])"
| "contains (c # cs) p = (startswith (c # cs) p \<or> contains cs p)"

text \<open>\<open>s.replace(old, new)\<close>; Python puts \<open>new\<close> around every character when \<open>old\<close> is empty.\<close>

fun replace_from :: "string \<Rightarrow> string \<Rightarrow> string \<Rightarrow> string" where
  "replace_from [] old new = []"
| "replace_from (c # cs) old new =
     (if startswith (c # cs) old
      then new @ replace_from (drop (length old - 1) cs) old new
      else c # replace_from cs old new)"

definition replace :: "string \<Rightarrow> string \<Rightarrow> string \<Rightarrow> string" where
  "replace s old new =
     (if old = [] then new @ concat (map (\<lambda>c. c # new) s) else replace_from s old new)"

text \<open>\<open>s.split(d)\<close> for a separator of one character: never an empty list.\<close>

fun split_chr :: "char \<Rightarrow> string \<Rightarrow> string list" where
  "split_chr d [] = [[]]"
| "split_chr d (c # cs) =
     (case split_chr d cs of
        [] \<Rightarrow> [[c]]
      | x # xs \<Rightarrow> if c = d then [] # x # xs else (c # x) # xs)"

text \<open>\<open>sep.join(xs)\<close>.\<close>

fun join :: "string \<Rightarrow> string list \<Rightarrow> string" where
  "join sep [] = []"
| "join sep [x] = x"
| "join sep (x # y # ys) = x @ sep @ join sep (y # ys)"

definition lstrip :: "string \<Rightarrow> string" where
  "lstrip s = dropWhile is_space s"

definition rstrip :: "string \<Rightarrow> string" where
  "rstrip s = rev (dropWhile is_space (rev s))"

definition strip :: "string \<Rightarrow> string" where
  "strip s = rstrip (lstrip s)"

text \<open>
  \<open>$\<close> without \<open>re.M\<close> holds at the end of the string and just before a newline that is
  its last character. \<open>eol_split s\<close> is the string up to the place where a match that
  ends at \<open>$\<close> and took what it could must end, and what stays behind it.
\<close>

definition eol_split :: "string \<Rightarrow> string \<times> string" where
  "eol_split s = (if s \<noteq> [] \<and> last s = newline then (butlast s, [newline]) else (s, []))"

text \<open>\<open>re.sub(r"\.\d+$", '', s)\<close>: the version suffix of an identifier.\<close>

definition strip_version :: "string \<Rightarrow> string" where
  "strip_version s =
     (let (body, nl) = eol_split s;
          ds = takeWhile is_digit (rev body);
          rest = dropWhile is_digit (rev body)
      in if ds \<noteq> [] \<and> rest \<noteq> [] \<and> hd rest = CHR ''.'' then rev (tl rest) @ nl else s)"

text \<open>
  \<open>re.sub(r"\.\s+.*$", '', s)\<close>: from the first dot that is followed by white space and
  has, behind that white space, no newline before the end of the string (\<open>.\<close> does not
  match a newline), everything is removed; a newline that ends the string stays.
\<close>

definition one_line :: "string \<Rightarrow> bool" where
  "one_line s = (newline \<notin> set (fst (eol_split s)))"

fun sub_dot_space_tail :: "string \<Rightarrow> string" where
  "sub_dot_space_tail [] = []"
| "sub_dot_space_tail (c # cs) =
     (if c = CHR ''.'' \<and> cs \<noteq> [] \<and> is_space (hd cs) \<and> one_line (dropWhile is_space cs)
      then snd (eol_split (dropWhile is_space cs))
      else c # sub_dot_space_tail cs)"

text \<open>
  \<open>re.findall(r"\[([^\]]*)\]", s)\<close>: the texts between an opening bracket and the next
  closing bracket, left to right.
\<close>

fun until_close :: "string \<Rightarrow> (string \<times> string) option" where
  "until_close [] = None"
| "until_close (c # cs) =
     (if c = CHR '']'' then Some ([], cs)
      else (case until_close cs of None \<Rightarrow> None | Some (a, b) \<Rightarrow> Some (c # a, b)))"

lemma until_close_length [termination_simp]:
  "until_close s = Some (a, b) \<Longrightarrow> length b < length s"
  by (induction s arbitrary: a b) (auto split: if_splits option.splits)

fun findall_brackets :: "string \<Rightarrow> string list" where
  "findall_brackets [] = []"
| "findall_brackets (c # cs) =
     (if c = CHR ''[''
      then (case until_close cs of
              None \<Rightarrow> []
            | Some (inner, rest) \<Rightarrow> inner # findall_brackets rest)
      else findall_brackets cs)"

text \<open>
  \<open>re.split(r'\s*;\s*', s)\<close>: the pieces between semicolons, without the white space
  that touches a semicolon.
\<close>

fun split_semi_rest :: "string list \<Rightarrow> string list" where
  "split_semi_rest [] = []"
| "split_semi_rest [l] = [lstrip l]"
| "split_semi_rest (m # l # ls) = strip m # split_semi_rest (l # ls)"

definition re_split_semi :: "string \<Rightarrow> string list" where
  "re_split_semi s =
     (case split_chr CHR '';'' s of
        [] \<Rightarrow> []
      | [p] \<Rightarrow> [p]
      | p # q # qs \<Rightarrow> rstrip p # split_semi_rest (q # qs))"

text \<open>\<open>re.match(r'[^,]*', s)[0]\<close>: the string up to its first comma.\<close>

definition until_comma :: "string \<Rightarrow> string" where
  "until_comma s = takeWhile (\<lambda>c. c \<noteq> CHR '','') s"

text \<open>\<open>startswith\<close> under \<open>re.I\<close>.\<close>

fun startswith_ci :: "string \<Rightarrow> string \<Rightarrow> bool" where
  "startswith_ci s [] = True"
| "startswith_ci [] (p # ps) = False"
| "startswith_ci (c # cs) (p # ps) = (lower_chr c = lower_chr p \<and> startswith_ci cs ps)"

text \<open>\<open>re.search(r'Name=([^\s|\;]*)', s, re.I | re.M)\<close>: group 1 of the first match.\<close>

fun search_name :: "string \<Rightarrow> string option" where
  "search_name [] = None"
| "search_name (c # cs) =
     (if startswith_ci (c # cs) ''Name=''
      then Some (takeWhile (\<lambda>x. \<not> is_space x \<and> x \<noteq> CHR ''|'' \<and> x \<noteq> CHR '';'') (drop 4 cs))
      else search_name cs)"

text \<open>
  \<open>re.search(r'[RecName|SubName]: Full=([^\;|\{]*)', s, re.I | re.M)\<close>: the bracket
  is a class of one character, so the match starts at any of these letters or a bar
  standing before \<open>: Full=\<close>.
\<close>

fun search_full :: "string \<Rightarrow> string option" where
  "search_full [] = None"
| "search_full (c # cs) =
     (if lower_chr c \<in> set ''recnam|sub'' \<and> startswith_ci cs '': Full=''
      then Some (takeWhile (\<lambda>x. x \<noteq> CHR '';'' \<and> x \<noteq> CHR ''|'' \<and> x \<noteq> CHR ''{'') (drop 7 cs))
      else search_full cs)"

text \<open>
  \<open>re.search(r'([\w|\s]*)\s+\(\w*\)', s, re.I | re.M)\<close>: a run of word characters, bars
  and white space that ends in white space and stands before a parenthesis holding word
  characters only; group 1 is the run without its last character.
\<close>

definition is_org :: "char \<Rightarrow> bool" where
  "is_org c = (is_word c \<or> c = CHR ''|'' \<or> is_space c)"

definition paren_word :: "string \<Rightarrow> bool" where
  "paren_word s = (case dropWhile is_word s of [] \<Rightarrow> False | c # _ \<Rightarrow> c = CHR '')'')"

function search_species :: "string \<Rightarrow> string option" where
  "search_species s =
     (case dropWhile is_org s of
        [] \<Rightarrow> None
      | c # cs \<Rightarrow>
          if c = CHR ''('' \<and> takeWhile is_org s \<noteq> [] \<and> is_space (last (takeWhile is_org s))
             \<and> paren_word cs
          then Some (butlast (takeWhile is_org s))
          else search_species cs)"
  by pat_completeness auto
termination
proof (relation "measure length")
  show "wf (measure length)" by simp
next
  fix s :: string and c cs
  assume "dropWhile is_org s = c # cs"
  then have "length (c # cs) \<le> length s"
    using length_dropWhile_le [of is_org s] by simp
  then show "(cs, s) \<in> measure length" by simp
qed

text \<open>\<open>re.search(r'(PATHWAY\s*[\w\W]*)', s, re.I | re.M)\<close>: the string from its first
  \<open>PATHWAY\<close>, in either case of the letters, to its end.\<close>

fun search_pathway :: "string \<Rightarrow> string option" where
  "search_pathway [] = None"
| "search_pathway (c # cs) =
     (if startswith_ci (c # cs) ''PATHWAY'' then Some (c # cs) else search_pathway cs)"

text \<open>\<open>re.sub('PATHWAY\s*', '', m)\<close>.\<close>

function sub_pathway :: "string \<Rightarrow> string" where
  "sub_pathway [] = []"
| "sub_pathway (c # cs) =
     (if startswith (c # cs) ''PATHWAY''
      then sub_pathway (dropWhile is_space (drop 6 cs))
      else c # sub_pathway cs)"
  by pat_completeness auto
termination
proof (relation "measure length")
  show "wf (measure length)" by simp
next
  fix c :: char and cs :: string
  have "length (dropWhile is_space (drop 6 cs)) \<le> length (drop 6 cs)"
    by (rule length_dropWhile_le)
  then show "(dropWhile is_space (drop 6 cs), c # cs) \<in> measure length" by simp
next
  fix c :: char and cs :: string
  show "(cs, c # cs) \<in> measure length" by simp
qed

text \<open>
  \<open>ms = re.split('\s+', m, 1)\<close> and the entry \<open>f"{ms[0]}>{''.join(ms[1:])};"\<close> built from
  it: the text before the first run of white space, \<open>>\<close>, the text behind that run.
\<close>

definition kegg_entry :: "string \<Rightarrow> string" where
  "kegg_entry m =
     takeWhile (\<lambda>c. \<not> is_space c) m @ ''>''
       @ dropWhile is_space (dropWhile (\<lambda>c. \<not> is_space c) m) @ '';''"

text \<open>\<open>re.sub(r'\;$', '', s)\<close>.\<close>

definition sub_semi_end :: "string \<Rightarrow> string" where
  "sub_semi_end s =
     (let (body, nl) = eol_split s
      in if body \<noteq> [] \<and> last body = CHR '';'' then butlast body @ nl else s)"

text \<open>\<open>re.sub('\:.*$', '', s)\<close>.\<close>

fun sub_colon_tail :: "string \<Rightarrow> string" where
  "sub_colon_tail [] = []"
| "sub_colon_tail (c # cs) =
     (if c = CHR '':'' \<and> one_line cs then snd (eol_split cs) else c # sub_colon_tail cs)"

text \<open>\<open>re.sub(r'\s*\[[^\]]*\]\s*$', '', s)\<close>: a bracketed qualifier that ends the string.\<close>

definition sub_bracket_end :: "string \<Rightarrow> string" where
  "sub_bracket_end s =
     (let t = rstrip s in
      if t \<noteq> [] \<and> last t = CHR '']'' then
        (let b = butlast t;
             seg = rev (takeWhile (\<lambda>c. c \<noteq> CHR '']'') (rev b));
             pre = rev (dropWhile (\<lambda>c. c \<noteq> CHR '']'') (rev b))
         in if CHR ''['' \<in> set seg
            then rstrip (pre @ takeWhile (\<lambda>c. c \<noteq> CHR ''['') seg)
            else s)
      else s)"

text \<open>\<open>re.sub(r'\s*\.\s*$', '', s)\<close>: a period that ends the string.\<close>

definition sub_dot_end :: "string \<Rightarrow> string" where
  "sub_dot_end s =
     (let t = rstrip s in
      if t \<noteq> [] \<and> last t = CHR ''.'' then rstrip (butlast t) else s)"

text \<open>\<open>str(n)\<close> for an integer.\<close>

fun str_nat :: "nat \<Rightarrow> string" where
  "str_nat n =
     (if n < 10 then [''0123456789'' ! n]
      else str_nat (n div 10) @ [''0123456789'' ! (n mod 10)])"

definition str_int :: "int \<Rightarrow> string" where
  "str_int i = (if i < 0 then CHR ''-'' # str_nat (nat (- i)) else str_nat (nat i))"

section \<open>Data model\<close>

text \<open>
  The exceptions of Python that the program can raise and does not catch; a function that
  can raise returns \<open>error + 'a\<close>.
\<close>

datatype error = IndexError | KeyError | ValueError

text \<open>A cell of a data frame: \<open>np.nan\<close>, a string or an integer.\<close>

datatype cell = NaN | Str string | Num nat

text \<open>
  A \<open>pandas.DataFrame\<close> with the default index is a \<open>table\<close>: its column names and its
  rows. After \<open>set_index\<close> it is a \<open>frame\<close>: every row is the pair of its index label and
  of its cells, one for each column.
\<close>

type_synonym table = "string list \<times> cell list list"

record frame =
  cols :: "string list"
  rows :: "(cell \<times> cell list) list"

text \<open>
  A record of \<open>Bio.SwissProt\<close>, with the fields the program reads. A cross-reference is
  the name of its database and the fields that follow it (\<open>x[0]\<close> and \<open>x[1:]\<close>).
\<close>

record protein_record =
  entry_name :: string
  accessions :: "string list"
  gene_name :: string
  description :: string
  data_class :: string
  organism :: string
  comments :: "string list"
  cross_references :: "(string \<times> string list) list"

text \<open>
  An entry of the CORUM file; a key of the JSON object that an entry does not have is
  \<open>None\<close>. \<open>subunits\<close> is the value of the key \<open>subunits(UniProt IDs)\<close>.
\<close>

record complex_entry =
  ComplexID :: "int option"
  ComplexName :: "string option"
  subunits :: "string option"

text \<open>
  What a run of the program works with: the sequence side table \<open>db_fasta_seqio\<close> (comment
  line and length of each isoform), the CORUM entries and the columns 3 and 4 of the
  PANTHER table (\<open>None\<close> when the file was not there; a cell is \<open>None\<close> when it is
  \<open>NaN\<close>), the directory of the KEGG cache, and \<open>REST.kegg_get(id).read()\<close>, which is
  \<open>None\<close> when the call raises.
\<close>

record env =
  db_fasta_seqio :: "string \<rightharpoonup> (string \<times> nat)"
  corum_json :: "complex_entry list option"
  panther_df :: "(string option \<times> string option) list option"
  cached_dir_kegg :: string
  kegg_get :: "string \<Rightarrow> string option"

text \<open>
  The files of the cache directory, each with its text, and the identifiers for which
  \<open>REST.kegg_get\<close> was called, in the order of the calls. A file holds the text last
  written to it.
\<close>

record kegg_state =
  files :: "string \<rightharpoonup> string"
  fetched :: "string list"

definition XID :: string where
  "XID = ''Protein''"

definition META :: "string list" where
  "META = [''xref_UniProt_Name'', ''Protein'', ''Gene'', ''Species'', ''Length'',
           ''Description'', ''Comment_Line'', ''prot_UniProt_Class'']"

definition XTERMS :: "(string \<times> string list) list" where
  "XTERMS =
     [(''Ensembl'', [''xref_Ensembl_protId'', ''xref_Ensembl_transcId'', ''xref_Ensembl_GeneId'', ''Protein'']),
      (''RefSeq'', [''xref_RefSeq_protId'', ''xref_RefSeq_transcId'', ''Protein'']),
      (''CCDS'', [''xref_CCDS'', ''Protein''])]"

definition CTERMS :: "(string \<times> (string \<times> string) list) list" where
  "CTERMS =
     [(''GO'', [(''cat_GO_C'', ''C''), (''cat_GO_F'', ''F''), (''cat_GO_P'', ''P'')]),
      (''KEGG'', [(''cat_KEGG'', [])]),
      (''PANTHER'', [(''cat_PANTHER'', [])]),
      (''Reactome'', [(''cat_Reactome'', [])]),
      (''CORUM'', [(''cat_CORUM'', [])])]"

definition HEADERS :: "string list" where
  "HEADERS = META @ concat (map (\<lambda>i. butlast (snd i)) XTERMS)
               @ concat (map (\<lambda>i. map fst (snd i)) CTERMS)"

section \<open>Data frames\<close>

text \<open>
  \<open>pd.DataFrame(columns=xcols, data=xvals)\<close> on a list of rows: every row has a cell for
  every column.
\<close>

definition DataFrame :: "string list \<Rightarrow> cell list list \<Rightarrow> error + table" where
  "DataFrame xcols xvals =
     (if list_all (\<lambda>r. length r = length xcols) xvals then Inr (xcols, xvals)
      else Inl ValueError)"

text \<open>\<open>df.dropna(how='all').empty\<close>: no row is left that has a cell other than \<open>NaN\<close>.\<close>

definition all_nan :: "cell list \<Rightarrow> bool" where
  "all_nan r = list_all (\<lambda>c. c = NaN) r"

definition dropna_empty :: "table \<Rightarrow> bool" where
  "dropna_empty df = (fst df = [] \<or> filter (\<lambda>r. \<not> all_nan r) (snd df) = [])"

text \<open>The position of a column.\<close>

fun index_of :: "string \<Rightarrow> string list \<Rightarrow> nat option" where
  "index_of x [] = None"
| "index_of x (y # ys) = (if x = y then Some 0 else map_option Suc (index_of x ys))"

text \<open>\<open>df.index\<close>: the labels of the rows.\<close>

definition keys :: "frame \<Rightarrow> cell list" where
  "keys df = map fst (rows df)"

definition remove_nth :: "nat \<Rightarrow> 'a list \<Rightarrow> 'a list" where
  "remove_nth n xs = take n xs @ drop (Suc n) xs"

text \<open>\<open>df.set_index(name)\<close>.\<close>

definition set_index :: "string \<Rightarrow> table \<Rightarrow> error + frame" where
  "set_index name df =
     (case index_of name (fst df) of
        None \<Rightarrow> Inl KeyError
      | Some p \<Rightarrow>
          Inr \<lparr>cols = remove_nth p (fst df),
               rows = map (\<lambda>r. (r ! p, remove_nth p r)) (snd df)\<rparr>)"

text \<open>\<open>df[name] = values\<close> on a column that the frame has.\<close>

definition assign_column :: "string \<Rightarrow> cell list \<Rightarrow> table \<Rightarrow> error + table" where
  "assign_column name vs df =
     (case index_of name (fst df) of
        None \<Rightarrow> Inl KeyError
      | Some p \<Rightarrow>
          if length vs \<noteq> length (snd df) then Inl ValueError
          else Inr (fst df, map (\<lambda>(r, v). r[p := v]) (zip (snd df) vs)))"

text \<open>
  The order of the index labels of an outer join: strings by their characters, the
  integers before them and \<open>NaN\<close> last. Only strings become labels in this program.
\<close>

fun str_le :: "string \<Rightarrow> string \<Rightarrow> bool" where
  "str_le [] t = True"
| "str_le (c # cs) [] = False"
| "str_le (c # cs) (d # ds) =
     ((of_char c :: nat) < of_char d \<or> (c = d \<and> str_le cs ds))"

fun cell_le :: "cell \<Rightarrow> cell \<Rightarrow> bool" where
  "cell_le (Str a) (Str b) = str_le a b"
| "cell_le (Num a) (Num b) = (a \<le> b)"
| "cell_le (Num a) (Str b) = True"
| "cell_le (Str a) (Num b) = False"
| "cell_le NaN NaN = True"
| "cell_le NaN b = False"
| "cell_le a NaN = True"

fun insert_key :: "cell \<Rightarrow> cell list \<Rightarrow> cell list" where
  "insert_key k [] = [k]"
| "insert_key k (x # xs) = (if cell_le k x then k # x # xs else x # insert_key k xs)"

definition sort_keys :: "cell list \<Rightarrow> cell list" where
  "sort_keys ks = foldr insert_key ks []"

text \<open>The rows of a frame under a label; one row of \<open>NaN\<close> when it has none.\<close>

definition rows_of :: "cell \<Rightarrow> frame \<Rightarrow> cell list list" where
  "rows_of k df =
     (case filter (\<lambda>r. fst r = k) (rows df) of
        [] \<Rightarrow> [replicate (length (cols df)) NaN]
      | r # rs \<Rightarrow> map snd (r # rs))"

text \<open>
  \<open>df1.join(df2, how='outer')\<close>: the labels of both frames, each once and in order; under
  a label every row of \<open>df1\<close> with every row of \<open>df2\<close>. Columns of one name in both
  frames raise \<open>ValueError\<close>.
\<close>

definition join_rows :: "frame \<Rightarrow> frame \<Rightarrow> cell \<Rightarrow> (cell \<times> cell list) list" where
  "join_rows df1 df2 k =
     concat (map (\<lambda>l. map (\<lambda>r. (k, l @ r)) (rows_of k df2)) (rows_of k df1))"

definition join_outer :: "frame \<Rightarrow> frame \<Rightarrow> error + frame" where
  "join_outer df1 df2 =
     (if filter (\<lambda>c. c \<in> set (cols df2)) (cols df1) \<noteq> [] then Inl ValueError
      else Inr \<lparr>cols = cols df1 @ cols df2,
                rows = concat (map (join_rows df1 df2)
                                 (sort_keys (remdups (map fst (rows df1) @ map fst (rows df2)))))\<rparr>)"

text \<open>
  \<open>pd.concat([df2, dfx], axis=1)\<close> of two tables with the default index: row by row,
  the shorter table filled with \<open>NaN\<close>.
\<close>

definition pad_rows :: "nat \<Rightarrow> nat \<Rightarrow> cell list list \<Rightarrow> cell list list" where
  "pad_rows n w rs = rs @ replicate (n - length rs) (replicate w NaN)"

definition concat_axis1 :: "table \<Rightarrow> table \<Rightarrow> table" where
  "concat_axis1 a b =
     (fst a @ fst b,
      map (\<lambda>(r, q). r @ q)
        (zip (pad_rows (max (length (snd a)) (length (snd b))) (length (fst a)) (snd a))
             (pad_rows (max (length (snd a)) (length (snd b))) (length (fst b)) (snd b))))"

text \<open>\<open>df.ffill()\<close>: a \<open>NaN\<close> takes the last value above it in its column.\<close>

definition fill_row :: "cell list \<Rightarrow> cell list \<Rightarrow> cell list" where
  "fill_row prev r = map (\<lambda>(p, c). if c = NaN then p else c) (zip prev r)"

fun ffill_from :: "cell list \<Rightarrow> cell list list \<Rightarrow> cell list list" where
  "ffill_from prev [] = []"
| "ffill_from prev (r # rs) = fill_row prev r # ffill_from (fill_row prev r) rs"

definition ffill :: "table \<Rightarrow> table" where
  "ffill df = (fst df, case snd df of [] \<Rightarrow> [] | r # rs \<Rightarrow> r # ffill_from r rs)"

section \<open>The isoforms of a record and the table of its metadata\<close>

text \<open>A list of results is a result: the first exception wins, as in a comprehension.\<close>

fun collect :: "(error + 'a) list \<Rightarrow> error + 'a list" where
  "collect [] = Inr []"
| "collect (x # xs) =
     (case x of
        Inl e \<Rightarrow> Inl e
      | Inr v \<Rightarrow> (case collect xs of Inl e \<Rightarrow> Inl e | Inr vs \<Rightarrow> Inr (v # vs)))"

text \<open>
  \<open>[(a.replace('IsoId=',''), ap[i+1].replace('Sequence=','')) for i,a in enumerate(ap)
  if a.startswith('IsoId=')]\<close>: \<open>ap[i+1]\<close> raises when the last piece starts with
  \<open>IsoId=\<close>.
\<close>

fun iso_pairs :: "string list \<Rightarrow> error + (string \<times> string) list" where
  "iso_pairs [] = Inr []"
| "iso_pairs [a] = (if startswith a ''IsoId='' then Inl IndexError else Inr [])"
| "iso_pairs (a # b # ap) =
     (case iso_pairs (b # ap) of
        Inl e \<Rightarrow> Inl e
      | Inr x \<Rightarrow>
          Inr (if startswith a ''IsoId=''
               then (replace a ''IsoId='' [], replace b ''Sequence='' []) # x
               else x))"

definition altprod :: "string list \<Rightarrow> string list" where
  "altprod cs = filter (\<lambda>c. contains c ''ALTERNATIVE PRODUCTS:'') cs"

text \<open>
  The pairs (isoform id, sequence tag) of the comment on alternative products, each cut
  at its first comma.
\<close>

definition iso_tags :: "string \<Rightarrow> error + (string \<times> string) list" where
  "iso_tags c =
     (case iso_pairs (re_split_semi c) of
        Inl e \<Rightarrow> Inl e
      | Inr x \<Rightarrow> Inr (map (\<lambda>y. (until_comma (fst y), until_comma (snd y))) x))"

text \<open>
  \<open>[i[0] for i in x if i[1].startswith('VSP_')]\<close>, the ids of the isoforms with a variant
  sequence, and \<open>z[0]\<close> of \<open>z = [i[0] for i in x if i[1].startswith('Displayed')]\<close>.
\<close>

definition variant_ids :: "(string \<times> string) list \<Rightarrow> string list" where
  "variant_ids x = map fst (filter (\<lambda>i. startswith (snd i) ''VSP_'') x)"

definition displayed_id :: "(string \<times> string) list \<Rightarrow> string option" where
  "displayed_id x =
     (case map fst (filter (\<lambda>i. startswith (snd i) ''Displayed'') x) of
        [] \<Rightarrow> None
      | z # _ \<Rightarrow> Some z)"

text \<open>\<open>IsoIds\<close> and \<open>IsoDisplayed\<close> of \<open>_create_qreport\<close>.\<close>

definition isoforms :: "string \<Rightarrow> string list \<Rightarrow> error + (string list \<times> string option)" where
  "isoforms acc cs =
     (case altprod cs of
        [] \<Rightarrow> Inr ([acc], None)
      | c # _ \<Rightarrow>
          (case iso_tags c of
             Inl e \<Rightarrow> Inl e
           | Inr x \<Rightarrow> Inr (acc # variant_ids x, displayed_id x)))"

text \<open>
  \<open>np.concatenate\<close> on the one list of a column makes an array of one type: integers
  stay integers when the list holds nothing else, and are written as strings otherwise.
\<close>

definition np_concatenate :: "cell list \<Rightarrow> cell list" where
  "np_concatenate vs =
     (if list_all (\<lambda>v. case v of Num n \<Rightarrow> True | _ \<Rightarrow> False) vs then vs
      else map (\<lambda>v. case v of Num n \<Rightarrow> Str (str_nat n) | _ \<Rightarrow> v) vs)"

text \<open>
  \<open>_explode(df1, lst_cols=['Protein','Length','Comment_Line'])\<close> on the frame of one row
  \<open>[[name,IsoIds,gene,species,lengths,dsc,comms,dclass]]\<close> with the columns \<open>META\<close>: one
  row for each isoform id, the other cells repeated. \<open>IsoIds\<close> holds the accession, so the
  branch of \<open>_explode\<close> for an empty list is never taken.
\<close>

definition explode ::
  "string \<Rightarrow> string list \<Rightarrow> string \<Rightarrow> string \<Rightarrow> cell list \<Rightarrow> string \<Rightarrow> string list \<Rightarrow> string \<Rightarrow> table" where
  "explode name IsoIds gene species lengths dsc comms dclass =
     (META,
      map (\<lambda>(i, l, c). [Str name, Str i, Str gene, Str species, l, Str dsc, Str c, Str dclass])
        (zip IsoIds (zip (np_concatenate lengths) comms)))"

text \<open>
  \<open>gene\<close>, \<open>dsc\<close> and \<open>species\<close>: group 1 of the pattern, or the field as it is when the
  pattern does not match.
\<close>

definition gene_of :: "protein_record \<Rightarrow> string" where
  "gene_of record =
     (case search_name (gene_name record) of Some g \<Rightarrow> g | None \<Rightarrow> gene_name record)"

definition dsc_of :: "protein_record \<Rightarrow> string" where
  "dsc_of record =
     (case search_full (description record) of Some d \<Rightarrow> d | None \<Rightarrow> description record)"

definition species_of :: "protein_record \<Rightarrow> string" where
  "species_of record =
     (case search_species (organism record) of Some s \<Rightarrow> s | None \<Rightarrow> organism record)"

text \<open>\<open>lengths\<close> and \<open>comms\<close>: the empty string for an isoform that the side table lacks.\<close>

definition lengths_of :: "env \<Rightarrow> string list \<Rightarrow> cell list" where
  "lengths_of e IsoIds =
     map (\<lambda>i. case db_fasta_seqio e i of Some x \<Rightarrow> Num (snd x) | None \<Rightarrow> Str []) IsoIds"

definition comms_of :: "env \<Rightarrow> string list \<Rightarrow> string list" where
  "comms_of e IsoIds =
     map (\<lambda>i. case db_fasta_seqio e i of Some x \<Rightarrow> fst x | None \<Rightarrow> []) IsoIds"

text \<open>The frame \<open>df1\<close> of the metadata, with the isoform id as its index.\<close>

definition base_frame :: "env \<Rightarrow> protein_record \<Rightarrow> string list \<Rightarrow> error + frame" where
  "base_frame e record IsoIds =
     set_index XID
       (explode (entry_name record) IsoIds (gene_of record) (species_of record)
          (lengths_of e IsoIds) (dsc_of record) (comms_of e IsoIds) (data_class record))"

section \<open>Cross-references with identifiers: Ensembl, RefSeq, CCDS\<close>

text \<open>
  \<open>rcross[xdb]\<close>: the fields of the cross-references of one database, among those of
  the databases \<open>terms_dbs\<close>; \<open>xdb in rcross\<close> when the list is not empty.
\<close>

definition rcross :: "string list \<Rightarrow> (string \<times> string list) list \<Rightarrow> string \<Rightarrow> string list list" where
  "rcross terms_dbs xrefs xdb =
     map snd (filter (\<lambda>r. fst r = xdb) (filter (\<lambda>x. fst x \<in> set terms_dbs) xrefs))"

text \<open>
  \<open>y = re.findall(r"\[([^\]]*)\]", field)\<close> and
  \<open>i = acc if not y or y[0] == IsoDisplayed else y[0]\<close>.
\<close>

definition iso_of :: "string \<Rightarrow> string option \<Rightarrow> string \<Rightarrow> string" where
  "iso_of acc IsoDisplayed field =
     (case findall_brackets field of
        [] \<Rightarrow> acc
      | y # _ \<Rightarrow> if Some y = IsoDisplayed then acc else y)"

text \<open>The row \<open>xvals.append(...)\<close> of one cross-reference.\<close>

definition xref_row :: "string \<Rightarrow> string \<Rightarrow> string option \<Rightarrow> string list \<Rightarrow> error + cell list" where
  "xref_row xdb acc IsoDisplayed rcont =
     (if xdb = ''Ensembl'' then
        (if length rcont < 3 then Inl IndexError
         else Inr [Str (strip_version (rcont ! 1)),
                   Str (strip_version (rcont ! 0)),
                   Str (strip_version (sub_dot_space_tail (rcont ! 2))),
                   Str (iso_of acc IsoDisplayed (rcont ! 2))])
      else if xdb = ''RefSeq'' then
        (if length rcont < 2 then Inl IndexError
         else Inr [Str (strip_version (rcont ! 0)),
                   Str (strip_version (sub_dot_space_tail (rcont ! 1))),
                   Str (iso_of acc IsoDisplayed (rcont ! 1))])
      else
        (if length rcont < 2 then Inl IndexError
         else Inr [Str (rcont ! 0), Str (iso_of acc IsoDisplayed (rcont ! 1))]))"

text \<open>
  \<open>list(map(list, zip(*xvals)))\<close> on a list of lists of one cell each: one row, and no row
  when there is no column.
\<close>

definition one_row :: "cell list \<Rightarrow> cell list list" where
  "one_row vs = (if vs = [] then [] else [vs])"

text \<open>
  \<open>xvals\<close> of one entry of \<open>XTERMS\<close>: a row for each cross-reference of the database,
  one row of \<open>NaN\<close> when the record has none. A name other than the three has no loop.
\<close>

definition xref_values ::
  "string \<Rightarrow> string option \<Rightarrow> (string \<times> string list) list \<Rightarrow> string \<times> string list
     \<Rightarrow> error + cell list list" where
  "xref_values acc IsoDisplayed xrefs terms =
     (case rcross (map fst XTERMS) xrefs (fst terms) of
        [] \<Rightarrow> Inr (one_row (map (\<lambda>x. NaN) (snd terms)))
      | rcont # rconts \<Rightarrow>
          if fst terms \<in> set [''Ensembl'', ''RefSeq'', ''CCDS'']
          then collect (map (xref_row (fst terms) acc IsoDisplayed) (rcont # rconts))
          else Inr [])"

text \<open>\<open>df2[name].dropna(how='all').empty\<close>.\<close>

definition column_empty :: "string \<Rightarrow> table \<Rightarrow> error + bool" where
  "column_empty name df =
     (case index_of name (fst df) of
        None \<Rightarrow> Inl KeyError
      | Some p \<Rightarrow> Inr (list_all (\<lambda>r. r ! p = NaN) (snd df)))"

text \<open>
  The body of the loop over \<open>XTERMS\<close> behind \<open>df2 = pd.DataFrame(columns=xcols,
  data=xvals)\<close>: a table of \<open>NaN\<close> only is not joined.
\<close>

definition join_xterm :: "string list \<Rightarrow> frame \<Rightarrow> table \<Rightarrow> error + frame" where
  "join_xterm IsoIds df1 df2 =
     (if dropna_empty df2 then Inr df1
      else
        (case column_empty XID df2 of
           Inl e \<Rightarrow> Inl e
         | Inr no_ids \<Rightarrow>
             (case (if no_ids then assign_column XID (map Str IsoIds) df2 else Inr df2) of
                Inl e \<Rightarrow> Inl e
              | Inr df2' \<Rightarrow>
                  (case set_index XID df2' of
                     Inl e \<Rightarrow> Inl e
                   | Inr df2'' \<Rightarrow> join_outer df1 df2''))))"

definition xterm_step ::
  "string \<Rightarrow> string option \<Rightarrow> string list \<Rightarrow> (string \<times> string list) list \<Rightarrow> string \<times> string list
     \<Rightarrow> frame \<Rightarrow> error + frame" where
  "xterm_step acc IsoDisplayed IsoIds xrefs terms df1 =
     (case xref_values acc IsoDisplayed xrefs terms of
        Inl e \<Rightarrow> Inl e
      | Inr xvals \<Rightarrow>
          (case DataFrame (snd terms) xvals of
             Inl e \<Rightarrow> Inl e
           | Inr df2 \<Rightarrow> join_xterm IsoIds df1 df2))"

text \<open>\<open>for terms in self.XTERMS\<close>.\<close>

fun xterm_loop ::
  "string \<Rightarrow> string option \<Rightarrow> string list \<Rightarrow> (string \<times> string list) list
     \<Rightarrow> (string \<times> string list) list \<Rightarrow> frame \<Rightarrow> error + frame" where
  "xterm_loop acc IsoDisplayed IsoIds xrefs [] df1 = Inr df1"
| "xterm_loop acc IsoDisplayed IsoIds xrefs (terms # rest) df1 =
     (case xterm_step acc IsoDisplayed IsoIds xrefs terms df1 of
        Inl e \<Rightarrow> Inl e
      | Inr df \<Rightarrow> xterm_loop acc IsoDisplayed IsoIds xrefs rest df)"

section \<open>Cross-references with categories\<close>

subsection \<open>GO\<close>

definition flts :: "string list" where
  "flts = [''EXP'', ''IDA'', ''IPI'', ''IMP'', ''IGI'', ''IEP'', ''HTP'', ''HDA'', ''HMP'',
           ''HGI'', ''HEP'', ''IBA'', ''IBD'', ''IKR'', ''IRD'']"

text \<open>\<open>s = rcont[0]+'>'+rcont[1].replace(';',',')+'|'+rcont[2]\<close>.\<close>

definition go_entry :: "string list \<Rightarrow> string" where
  "go_entry rcont = rcont ! 0 @ ''>'' @ replace (rcont ! 1) '';'' '','' @ ''|'' @ rcont ! 2"

text \<open>The loop that fills the dictionary \<open>rcs\<close>, from the aspect to its entries.\<close>

fun go_rcs :: "string list list \<Rightarrow> (string \<rightharpoonup> string) \<Rightarrow> error + (string \<rightharpoonup> string)" where
  "go_rcs [] rcs = Inr rcs"
| "go_rcs (rcont # rconts) rcs =
     (if length rcont < 3 then Inl IndexError
      else if hd (split_chr CHR '':'' (rcont ! 2)) \<in> set flts
      then go_rcs rconts
             (rcs (hd (split_chr CHR '':'' (rcont ! 1)) \<mapsto>
                (case rcs (hd (split_chr CHR '':'' (rcont ! 1))) of
                   Some r \<Rightarrow> r @ '';'' @ go_entry rcont
                 | None \<Rightarrow> go_entry rcont)))
      else go_rcs rconts rcs)"

definition extract_cat_go :: "string list list \<Rightarrow> (string \<times> string) list \<Rightarrow> error + table" where
  "extract_cat_go rconts xpats =
     (case go_rcs rconts Map.empty of
        Inl e \<Rightarrow> Inl e
      | Inr rcs \<Rightarrow>
          Inr (map fst xpats,
               one_row (map (\<lambda>xpat. case rcs (snd xpat) of Some r \<Rightarrow> Str r | None \<Rightarrow> NaN) xpats)))"

subsection \<open>KEGG and its cache\<close>

text \<open>The loop over the lines of the \<open>PATHWAY\<close> block, which a line of another kind ends.\<close>

fun kegg_lines :: "string list \<Rightarrow> string" where
  "kegg_lines [] = []"
| "kegg_lines (m # ms) =
     (if startswith m ''PATHWAY'' then kegg_entry (strip (sub_pathway m)) @ kegg_lines ms
      else if startswith m '' '' then kegg_entry (strip (lstrip m)) @ kegg_lines ms
      else [])"

text \<open>The text \<open>rc\<close> derived from a response, before its last semicolon is removed.\<close>

definition kegg_derive :: "string \<Rightarrow> string" where
  "kegg_derive record =
     (if record = [] then []
      else
        (case search_pathway record of
           None \<Rightarrow> []
         | Some p \<Rightarrow> kegg_lines (split_chr newline p)))"

definition kegg_txt :: "env \<Rightarrow> string \<Rightarrow> string" where
  "kegg_txt e ident = cached_dir_kegg e @ ''/'' @ replace ident '':'' ''_'' @ ''.txt''"

definition kegg_dat :: "env \<Rightarrow> string \<Rightarrow> string" where
  "kegg_dat e ident = cached_dir_kegg e @ ''/'' @ replace ident '':'' ''_'' @ ''.dat''"

text \<open>\<open>if rc != '': rc = re.sub(r'\;$','', rc)\<close>, and the text is written to its file.\<close>

definition kegg_store :: "string \<Rightarrow> string \<Rightarrow> kegg_state \<Rightarrow> kegg_state \<times> string option" where
  "kegg_store path rc st =
     (if rc \<noteq> []
      then (st\<lparr>files := (files st)(path \<mapsto> sub_semi_end rc)\<rparr>, Some (sub_semi_end rc))
      else (st, Some []))"

text \<open>
  The body of \<open>try\<close> for one identifier: the new state and the text \<open>rc\<close> that is
  appended to \<open>rcs\<close>, or \<open>None\<close> when an exception was raised and caught, so that nothing
  is appended. The call of \<open>REST.kegg_get\<close> is the one statement that raises.
\<close>

definition kegg_lookup :: "env \<Rightarrow> kegg_state \<Rightarrow> string \<Rightarrow> kegg_state \<times> string option" where
  "kegg_lookup e st ident =
     (case files st (kegg_txt e ident) of
        Some rc \<Rightarrow> (st, Some rc)
      | None \<Rightarrow>
          (case files st (kegg_dat e ident) of
             Some record \<Rightarrow> kegg_store (kegg_txt e ident) (kegg_derive record) st
           | None \<Rightarrow>
               (case kegg_get e ident of
                  None \<Rightarrow> (st\<lparr>fetched := fetched st @ [ident]\<rparr>, None)
                | Some record \<Rightarrow>
                    kegg_store (kegg_txt e ident) (kegg_derive record)
                      (st\<lparr>files := (files st)(kegg_dat e ident \<mapsto> record),
                          fetched := fetched st @ [ident]\<rparr>))))"

text \<open>\<open>for rcont in rconts\<close>: \<open>id = rcont[0]\<close> stands before \<open>try\<close>.\<close>

fun kegg_rcs :: "env \<Rightarrow> kegg_state \<Rightarrow> string list list \<Rightarrow> error + (kegg_state \<times> string list)" where
  "kegg_rcs e st [] = Inr (st, [])"
| "kegg_rcs e st ([] # rconts) = Inl IndexError"
| "kegg_rcs e st ((ident # flds) # rconts) =
     (case kegg_lookup e st ident of
        (st1, r) \<Rightarrow>
          (case kegg_rcs e st1 rconts of
             Inl er \<Rightarrow> Inl er
           | Inr (st', rcs) \<Rightarrow> Inr (st', case r of None \<Rightarrow> rcs | Some rc \<Rightarrow> rc # rcs)))"

text \<open>\<open>for xpat in xpats\<close>: the cell of each column.\<close>

fun kegg_cells ::
  "env \<Rightarrow> kegg_state \<Rightarrow> string list list \<Rightarrow> (string \<times> string) list \<Rightarrow> error + (kegg_state \<times> cell list)" where
  "kegg_cells e st rconts [] = Inr (st, [])"
| "kegg_cells e st rconts (xpat # xpats) =
     (case kegg_rcs e st rconts of
        Inl er \<Rightarrow> Inl er
      | Inr (st', rcs) \<Rightarrow>
          (case kegg_cells e st' rconts xpats of
             Inl er \<Rightarrow> Inl er
           | Inr (st'', vs) \<Rightarrow>
               Inr (st'', (if rcs \<noteq> [] then Str (join '';'' rcs) else NaN) # vs)))"

definition extract_cat_kegg ::
  "env \<Rightarrow> kegg_state \<Rightarrow> string list list \<Rightarrow> (string \<times> string) list \<Rightarrow> error + (kegg_state \<times> table)" where
  "extract_cat_kegg e st rconts xpats =
     (case kegg_cells e st rconts xpats of
        Inl er \<Rightarrow> Inl er
      | Inr (st', vs) \<Rightarrow> Inr (st', (map fst xpats, one_row vs)))"

subsection \<open>PANTHER\<close>

text \<open>
  One pass of the loop in \<open>try\<close>: the text \<open>f"{x[0]}>{dsc};"\<close> of the first row of the table
  whose column 3 starts with the identifier, or \<open>None\<close> for an exception: no field, no
  table, a \<open>NaN\<close> in column 3 (the mask is then no boolean mask), no such row, or a
  \<open>NaN\<close> as the description.
\<close>

definition panther_entry ::
  "(string option \<times> string option) list option \<Rightarrow> string list \<Rightarrow> string option" where
  "panther_entry df rcont =
     (case rcont of
        [] \<Rightarrow> None
      | ident # _ \<Rightarrow>
          (case df of
             None \<Rightarrow> None
           | Some tab \<Rightarrow>
               if list_ex (\<lambda>r. fst r = None) tab then None
               else
                 (case filter (\<lambda>r. case fst r of Some s \<Rightarrow> startswith s ident | None \<Rightarrow> False) tab of
                    [] \<Rightarrow> None
                  | x # _ \<Rightarrow>
                      (case (fst x, snd x) of
                         (Some x0, Some x1) \<Rightarrow>
                           Some (sub_colon_tail x0 @ ''>'' @ replace x1 '';'' '','' @ '';'')
                       | _ \<Rightarrow> None))))"

text \<open>The loop assigns \<open>rcs\<close>, it does not add to it: the last cross-reference stays.\<close>

fun panther_rcs ::
  "(string option \<times> string option) list option \<Rightarrow> string list list \<Rightarrow> string \<Rightarrow> string option" where
  "panther_rcs df [] rcs = Some rcs"
| "panther_rcs df (rcont # rconts) rcs =
     (case panther_entry df rcont of
        None \<Rightarrow> None
      | Some r \<Rightarrow> panther_rcs df rconts r)"

definition panther_cell ::
  "(string option \<times> string option) list option \<Rightarrow> string list list \<Rightarrow> cell" where
  "panther_cell df rconts =
     (case panther_rcs df rconts [] of
        None \<Rightarrow> NaN
      | Some rcs \<Rightarrow> if rcs \<noteq> [] then Str (sub_semi_end rcs) else NaN)"

definition extract_cat_panther ::
  "(string option \<times> string option) list option \<Rightarrow> string list list \<Rightarrow> (string \<times> string) list
     \<Rightarrow> string \<Rightarrow> table" where
  "extract_cat_panther df rconts xpats acc =
     (map fst xpats, one_row (map (\<lambda>xpat. panther_cell df rconts) xpats))"

subsection \<open>Reactome\<close>

definition reactome_entry :: "string list \<Rightarrow> error + string" where
  "reactome_entry rcont =
     (case rcont of
        [] \<Rightarrow> Inl IndexError
      | ident # flds \<Rightarrow>
          Inr (ident @ ''>''
                 @ replace (sub_dot_end (sub_bracket_end (join ''|'' flds))) '';'' '',''))"

definition reactome_cell :: "string list list \<Rightarrow> error + cell" where
  "reactome_cell rconts =
     (case collect (map reactome_entry rconts) of
        Inl e \<Rightarrow> Inl e
      | Inr rcs \<Rightarrow> Inr (if rcs \<noteq> [] then Str (join '';'' rcs) else NaN))"

definition extract_cat_reactome :: "string list list \<Rightarrow> (string \<times> string) list \<Rightarrow> error + table" where
  "extract_cat_reactome rconts xpats =
     (case collect (map (\<lambda>xpat. reactome_cell rconts) xpats) of
        Inl e \<Rightarrow> Inl e
      | Inr vs \<Rightarrow> Inr (map fst xpats, one_row vs))"

subsection \<open>CORUM\<close>

text \<open>
  \<open>filter(lambda person: acc in person['subunits(UniProt IDs)'], datatxt)\<close>: the value of
  the key is a string, and \<open>in\<close> on strings looks for a substring; an entry without
  the key raises.
\<close>

definition corum_comps :: "complex_entry list \<Rightarrow> string \<Rightarrow> error + complex_entry list" where
  "corum_comps datatxt acc =
     (case collect (map (\<lambda>person. case subunits person of
                                     None \<Rightarrow> Inl KeyError
                                   | Some s \<Rightarrow> Inr (contains s acc, person)) datatxt) of
        Inl e \<Rightarrow> Inl e
      | Inr marked \<Rightarrow> Inr (map snd (filter fst marked)))"

text \<open>
  \<open>f"compID_{comp['ComplexID']}>{comp['ComplexName']}".replace(';',',')\<close> for the entries
  that have both keys.
\<close>

definition corum_format :: "complex_entry list \<Rightarrow> string list" where
  "corum_format comps =
     concat (map (\<lambda>comp. case (ComplexID comp, ComplexName comp) of
                            (Some i, Some n) \<Rightarrow>
                              [replace (''compID_'' @ str_int i @ ''>'' @ n) '';'' '','']
                          | _ \<Rightarrow> []) comps)"

definition corum_cell :: "complex_entry list option \<Rightarrow> string \<Rightarrow> error + cell" where
  "corum_cell datatxt acc =
     (case datatxt of
        None \<Rightarrow> Inr NaN
      | Some [] \<Rightarrow> Inr NaN
      | Some (c # cs) \<Rightarrow>
          (case corum_comps (c # cs) acc of
             Inl e \<Rightarrow> Inl e
           | Inr comps \<Rightarrow>
               Inr (if join '';'' (corum_format comps) \<noteq> []
                    then Str (join '';'' (corum_format comps)) else NaN)))"

definition extract_cat_corum ::
  "complex_entry list option \<Rightarrow> (string \<times> string) list \<Rightarrow> string \<Rightarrow> error + table" where
  "extract_cat_corum datatxt xpats acc =
     (case collect (map (\<lambda>xpat. corum_cell datatxt acc) xpats) of
        Inl e \<Rightarrow> Inl e
      | Inr vs \<Rightarrow> Inr (map fst xpats, one_row vs))"

subsection \<open>The loop over the categories\<close>

text \<open>
  \<open>(xcols, xvals)\<close> of one entry of \<open>CTERMS\<close>. \<open>MIM\<close> and \<open>DrugBank\<close> are commented out
  of \<open>CTERMS\<close>, so their two branches are never reached and are not modelled; any other
  name leaves both lists empty.
\<close>

definition cterm_values ::
  "env \<Rightarrow> kegg_state \<Rightarrow> string \<Rightarrow> (string \<times> string list) list \<Rightarrow> string \<times> (string \<times> string) list
     \<Rightarrow> error + (kegg_state \<times> table)" where
  "cterm_values e st acc xrefs terms =
     (case rcross (map fst CTERMS) xrefs (fst terms) of
        [] \<Rightarrow> Inr (st, (map fst (snd terms), one_row (map (\<lambda>x. NaN) (snd terms))))
      | rcont # rconts \<Rightarrow>
          if fst terms = ''GO'' then
            (case extract_cat_go (rcont # rconts) (snd terms) of
               Inl er \<Rightarrow> Inl er
             | Inr t \<Rightarrow> Inr (st, t))
          else if fst terms = ''KEGG'' then extract_cat_kegg e st (rcont # rconts) (snd terms)
          else if fst terms = ''PANTHER'' then
            Inr (st, extract_cat_panther (panther_df e) (rcont # rconts) (snd terms) acc)
          else if fst terms = ''Reactome'' then
            (case extract_cat_reactome (rcont # rconts) (snd terms) of
               Inl er \<Rightarrow> Inl er
             | Inr t \<Rightarrow> Inr (st, t))
          else if fst terms = ''CORUM'' then
            (case extract_cat_corum (corum_json e) (snd terms) acc of
               Inl er \<Rightarrow> Inl er
             | Inr t \<Rightarrow> Inr (st, t))
          else Inr (st, ([], [])))"

text \<open>\<open>dfx = pd.DataFrame(columns=[self.XID], data=IsoIds)\<close>.\<close>

definition isoid_table :: "string list \<Rightarrow> table" where
  "isoid_table IsoIds = ([XID], map (\<lambda>i. [Str i]) IsoIds)"

text \<open>
  The body of the loop over \<open>CTERMS\<close> behind \<open>df2 = pd.DataFrame(columns=xcols,
  data=xvals)\<close>: the row of the category is given to every isoform id, and a table of
  \<open>NaN\<close> only is not joined.
\<close>

definition join_cterm :: "string list \<Rightarrow> frame \<Rightarrow> table \<Rightarrow> error + frame" where
  "join_cterm IsoIds df1 df2 =
     (if dropna_empty df2 then Inr df1
      else
        (case set_index XID (ffill (concat_axis1 df2 (isoid_table IsoIds))) of
           Inl e \<Rightarrow> Inl e
         | Inr df2' \<Rightarrow> join_outer df1 df2'))"

definition cterm_step ::
  "env \<Rightarrow> kegg_state \<Rightarrow> string \<Rightarrow> string list \<Rightarrow> (string \<times> string list) list
     \<Rightarrow> string \<times> (string \<times> string) list \<Rightarrow> frame \<Rightarrow> error + (kegg_state \<times> frame)" where
  "cterm_step e st acc IsoIds xrefs terms df1 =
     (case cterm_values e st acc xrefs terms of
        Inl er \<Rightarrow> Inl er
      | Inr (st', xcols, xvals) \<Rightarrow>
          (case DataFrame xcols xvals of
             Inl er \<Rightarrow> Inl er
           | Inr df2 \<Rightarrow>
               (case join_cterm IsoIds df1 df2 of
                  Inl er \<Rightarrow> Inl er
                | Inr df \<Rightarrow> Inr (st', df))))"

text \<open>\<open>for terms in self.CTERMS\<close>.\<close>

fun cterm_loop ::
  "env \<Rightarrow> kegg_state \<Rightarrow> string \<Rightarrow> string list \<Rightarrow> (string \<times> string list) list
     \<Rightarrow> (string \<times> (string \<times> string) list) list \<Rightarrow> frame \<Rightarrow> error + (kegg_state \<times> frame)" where
  "cterm_loop e st acc IsoIds xrefs [] df1 = Inr (st, df1)"
| "cterm_loop e st acc IsoIds xrefs (terms # rest) df1 =
     (case cterm_step e st acc IsoIds xrefs terms df1 of
        Inl er \<Rightarrow> Inl er
      | Inr (st', df) \<Rightarrow> cterm_loop e st' acc IsoIds xrefs rest df)"

section \<open>The report\<close>

text \<open>
  \<open>_create_qreport\<close>: the rows of one record, and the state of the KEGG cache behind
  it. \<open>record.accessions[0]\<close> raises on a record without an accession.
\<close>

definition create_qreport_record ::
  "env \<Rightarrow> kegg_state \<Rightarrow> protein_record \<Rightarrow> error + (kegg_state \<times> frame)" where
  "create_qreport_record e st record =
     (case accessions record of
        [] \<Rightarrow> Inl IndexError
      | acc # _ \<Rightarrow>
          (case isoforms acc (comments record) of
             Inl er \<Rightarrow> Inl er
           | Inr (IsoIds, IsoDisplayed) \<Rightarrow>
               (case base_frame e record IsoIds of
                  Inl er \<Rightarrow> Inl er
                | Inr df1 \<Rightarrow>
                    (case xterm_loop acc IsoDisplayed IsoIds (cross_references record) XTERMS df1 of
                       Inl er \<Rightarrow> Inl er
                     | Inr df \<Rightarrow>
                         cterm_loop e st acc IsoIds (cross_references record) CTERMS df))))"

text \<open>The frame that \<open>_create_qreport\<close> returns.\<close>

definition qreport_frame :: "env \<Rightarrow> kegg_state \<Rightarrow> protein_record \<Rightarrow> error + frame" where
  "qreport_frame e st record = map_sum id snd (create_qreport_record e st record)"

text \<open>\<open>df.loc[label, name]\<close> for a row of the frame: the cell of the row in a column.\<close>

definition cell_of :: "frame \<Rightarrow> string \<Rightarrow> cell \<times> cell list \<Rightarrow> cell option" where
  "cell_of df name r = map_option (\<lambda>p. snd r ! p) (index_of name (cols df))"

text \<open>
  \<open>to_file\<close>: the index becomes the column \<open>Protein\<close> again, a column of \<open>HEADERS\<close> that
  the frame does not have is added with \<open>NaN\<close>, and the columns \<open>HEADERS\<close> are written in
  their order. The result is the table that is written.
\<close>

definition reset_index :: "frame \<Rightarrow> table" where
  "reset_index df = (XID # cols df, map (\<lambda>r. fst r # snd r) (rows df))"

definition to_file :: "frame \<Rightarrow> table" where
  "to_file df =
     (HEADERS,
      map (\<lambda>r. map (\<lambda>h. case index_of h (fst (reset_index df)) of
                           Some p \<Rightarrow> r ! p
                         | None \<Rightarrow> NaN) HEADERS)
        (snd (reset_index df)))"

section \<open>Notions of the specification\<close>

text \<open>
  The member accessions of a complex, in the words of the specification: the accessions
  that its delimited string of subunits lists, which CORUM separates by semicolons.
\<close>

definition member_set :: "string \<Rightarrow> string set" where
  "member_set s = set (split_chr CHR '';'' s)"

text \<open>The rows of a frame under a label, and a frame whose rows all have a cell for each column.\<close>

definition rows_at :: "cell \<Rightarrow> frame \<Rightarrow> cell list list" where
  "rows_at k df = map snd (filter (\<lambda>r. fst r = k) (rows df))"

definition wf_frame :: "frame \<Rightarrow> bool" where
  "wf_frame df = list_all (\<lambda>r. length (snd r) = length (cols df)) (rows df)"

text \<open>The columns of the frame of the metadata, and its row for one isoform.\<close>

definition base_cols :: "string list" where
  "base_cols = [''xref_UniProt_Name'', ''Gene'', ''Species'', ''Length'',
                ''Description'', ''Comment_Line'', ''prot_UniProt_Class'']"

definition base_row :: "protein_record \<Rightarrow> cell \<Rightarrow> string \<Rightarrow> cell list" where
  "base_row record l c =
     [Str (entry_name record), Str (gene_of record), Str (species_of record), l,
      Str (dsc_of record), Str c, Str (data_class record)]"

text \<open>A table whose rows all have a cell for each column.\<close>

definition wf_table :: "table \<Rightarrow> bool" where
  "wf_table t = list_all (\<lambda>r. length r = length (fst t)) (snd t)"

text \<open>
  One pass of a loop of \<open>_create_qreport\<close> leaves \<open>df1\<close> as it is or joins a frame to it.
\<close>

definition joins :: "frame \<Rightarrow> frame \<Rightarrow> bool" where
  "joins df1 df = (df = df1 \<or> (\<exists>df2. wf_frame df2 \<and> join_outer df1 df2 = Inr df))"

text \<open>
  A frame \<open>df\<close> carries the frame \<open>b\<close> of the metadata: its first columns are those of
  \<open>b\<close>, it has every label of \<open>b\<close>, and each of its rows starts with the cells of a row
  of \<open>b\<close> with the same label, or has a label that \<open>b\<close> lacks and starts with \<open>NaN\<close> in
  the columns of \<open>b\<close>.
\<close>

definition carries :: "frame \<Rightarrow> frame \<Rightarrow> bool" where
  "carries b df =
     (wf_frame df \<and> take (length (cols b)) (cols df) = cols b
      \<and> set (keys b) \<subseteq> set (keys df)
      \<and> list_all (\<lambda>r. (fst r, take (length (cols b)) (snd r)) \<in> set (rows b)
                       \<or> (fst r \<notin> set (keys b)
                           \<and> take (length (cols b)) (snd r) = replicate (length (cols b)) NaN))
           (rows df))"

text \<open>
  The field of a cross-reference that holds the bracket with the isoform id, and the
  isoform ids to which the cross-references of one database of \<open>XTERMS\<close> are attributed.
\<close>

definition bracket_field :: "string \<Rightarrow> string list \<Rightarrow> string" where
  "bracket_field xdb rcont = rcont ! (if xdb = ''Ensembl'' then 2 else 1)"

definition xref_ids ::
  "string \<Rightarrow> string option \<Rightarrow> (string \<times> string list) list \<Rightarrow> string \<Rightarrow> string list" where
  "xref_ids acc IsoDisplayed xrefs xdb =
     map (\<lambda>rcont. iso_of acc IsoDisplayed (bracket_field xdb rcont))
       (rcross (map fst XTERMS) xrefs xdb)"










text \<open>The cell of a row of a table in the column of a name.\<close>

definition table_cell :: "table \<Rightarrow> string \<Rightarrow> cell list \<Rightarrow> cell option" where
  "table_cell t name r = map_option (\<lambda>p. r ! p) (index_of name (fst t))"

text \<open>
  The columns that the entries of \<open>XTERMS\<close> and of \<open>CTERMS\<close> with a cross-reference in
  the record may give to the frame of the record.
\<close>

definition present_cols :: "(string \<times> string list) list \<Rightarrow> string list" where
  "present_cols xrefs =
     concat (map (\<lambda>t. butlast (snd t))
               (filter (\<lambda>t. rcross (map fst XTERMS) xrefs (fst t) \<noteq> []) XTERMS))
     @ concat (map (\<lambda>t. map fst (snd t))
                 (filter (\<lambda>t. rcross (map fst CTERMS) xrefs (fst t) \<noteq> []) CTERMS))"

section \<open>Example inputs\<close>

text \<open>A cache with no file, a network that fails on every call, and one that answers.\<close>

definition no_network :: "string \<Rightarrow> string option" where
  "no_network i = None"

definition empty_cache :: kegg_state where
  "empty_cache = \<lparr>files = Map.empty, fetched = []\<rparr>"

definition offline_env :: env where
  "offline_env = \<lparr>db_fasta_seqio = Map.empty, corum_json = None, panther_df = None,
                   cached_dir_kegg = ''cached/human/kegg'', kegg_get = no_network\<rparr>"

definition example_response :: string where
  "example_response = ''ENTRY       7529'' @ [newline] @ ''PATHWAY     hsa04110  Cell cycle'' @ [newline]
       @ ''            hsa04114  Oocyte meiosis'' @ [newline] @ ''BRITE       KEGG Orthology''"

definition example_network :: "string \<Rightarrow> string option" where
  "example_network i =
     (if i = ''hsa:7529'' then Some example_response
      else if i = ''hsa:0'' then Some ''ENTRY       0''
      else if i = ''hsa:3101'' then Some ''PATHWAY     hsa00010  Glycolysis; Gluconeogenesis''
      else if i = ''hsa:261726''
        then Some (''ENTRY       261726'' @ [newline] @ ''NAME        TIPRL, TOR signaling pathway regulator'')
      else if i = ''hsa:1''
        then Some (''ENTRY       1'' @ [newline] @ ''NAME        RAS PATHWAY regulator 1'')
      else None)"

definition online_env :: env where
  "online_env = offline_env\<lparr>kegg_get := example_network\<rparr>"

text \<open>A CORUM file with one complex, whose one subunit has an accession of ten characters.\<close>

definition example_corum :: "complex_entry list" where
  "example_corum =
     [\<lparr>ComplexID = Some 7, ComplexName = Some ''Test;Complex'', subunits = Some ''A0A024R161''\<rparr>]"

text \<open>
  Records. \<open>plain_record\<close> has no comment on alternative products and one Ensembl
  cross-reference; \<open>example_record\<close> declares a displayed isoform and one with a variant
  sequence; \<open>twin_record\<close> declares two isoforms with a variant sequence whose lists of
  ids start with the same id; \<open>multi_record\<close> has two Ensembl cross-references of one
  isoform; \<open>stray_record\<close> has a CCDS cross-reference of an isoform that the record
  does not declare.
\<close>

definition plain_record :: protein_record where
  "plain_record =
     \<lparr>entry_name = ''TEST_HUMAN'', accessions = [''P12345''], gene_name = ''Name=TST;'',
      description = ''RecName: Full=Test protein;'', data_class = ''Reviewed'',
      organism = ''Homo sapiens (Human).'', comments = [''FUNCTION: None.''],
      cross_references =
        [(''Ensembl'', [''ENST00000001.2'', ''ENSP00000001.2'', ''ENSG00000001.2'']),
         (''CORUM'', [''P12345''])]\<rparr>"



definition multi_record :: protein_record where
  "multi_record =
     \<lparr>entry_name = ''TEST_HUMAN'', accessions = [''P12345''], gene_name = ''Name=TST;'',
      description = ''RecName: Full=Test protein;'', data_class = ''Reviewed'',
      organism = ''Homo sapiens (Human).'', comments = [],
      cross_references =
        [(''Ensembl'', [''ENST00000001.2'', ''ENSP00000001.2'', ''ENSG00000001.2'']),
         (''Ensembl'', [''ENST00000002.1'', ''ENSP00000002.1'', ''ENSG00000001.2''])]\<rparr>"

definition stray_record :: protein_record where
  "stray_record =
     \<lparr>entry_name = ''TEST_HUMAN'', accessions = [''P12345''], gene_name = ''Name=TST;'',
      description = ''RecName: Full=Test protein;'', data_class = ''Reviewed'',
      organism = ''Homo sapiens (Human).'', comments = [],
      cross_references = [(''CCDS'', [''CCDS1.1'', ''-. [P12345-3]''])]\<rparr>"

text \<open>The frame of \<open>stray_record\<close>.\<close>

definition stray_frame :: frame where
  "stray_frame =
     \<lparr>cols = [''xref_UniProt_Name'', ''Gene'', ''Species'', ''Length'', ''Description'',
              ''Comment_Line'', ''prot_UniProt_Class'', ''xref_CCDS''],
      rows = [(Str ''P12345'',
               [Str ''TEST_HUMAN'', Str ''TST'', Str ''Homo sapiens'', Str [], Str ''Test protein'',
                Str [], Str ''Reviewed'', NaN]),
              (Str ''P12345-3'', [NaN, NaN, NaN, NaN, NaN, NaN, NaN, Str ''CCDS1.1''])]\<rparr>"



text \<open>The frames of \<open>plain_record\<close> and of \<open>multi_record\<close>.\<close>

definition plain_frame :: frame where
  "plain_frame =
     \<lparr>cols = [''xref_UniProt_Name'', ''Gene'', ''Species'', ''Length'', ''Description'',
              ''Comment_Line'', ''prot_UniProt_Class'', ''xref_Ensembl_protId'',
              ''xref_Ensembl_transcId'', ''xref_Ensembl_GeneId''],
      rows = [(Str ''P12345'',
               [Str ''TEST_HUMAN'', Str ''TST'', Str ''Homo sapiens'', Str [], Str ''Test protein'',
                Str [], Str ''Reviewed'', Str ''ENSP00000001'', Str ''ENST00000001'',
                Str ''ENSG00000001''])]\<rparr>"

definition multi_frame :: frame where
  "multi_frame =
     \<lparr>cols = [''xref_UniProt_Name'', ''Gene'', ''Species'', ''Length'', ''Description'',
              ''Comment_Line'', ''prot_UniProt_Class'', ''xref_Ensembl_protId'',
              ''xref_Ensembl_transcId'', ''xref_Ensembl_GeneId''],
      rows = [(Str ''P12345'',
               [Str ''TEST_HUMAN'', Str ''TST'', Str ''Homo sapiens'', Str [], Str ''Test protein'',
                Str [], Str ''Reviewed'', Str ''ENSP00000001'', Str ''ENST00000001'',
                Str ''ENSG00000001'']),
              (Str ''P12345'',
               [Str ''TEST_HUMAN'', Str ''TST'', Str ''Homo sapiens'', Str [], Str ''Test protein'',
                Str [], Str ''Reviewed'', Str ''ENSP00000002'', Str ''ENST00000002'',
                Str ''ENSG00000001''])]\<rparr>"

section \<open>Strings: lemmas\<close>

lemma startswith_append: "startswith (p @ s) p"
  by (induction p) auto

lemma contains_append: "contains s p \<Longrightarrow> contains (a @ s) p"
  by (induction a) auto

lemma contains_self_prefix: "contains (p @ s) p"
  by (cases "p @ s") (auto simp: startswith_append dest: sym)

lemma split_chr_nonempty: "split_chr d s \<noteq> []"
  by (induction s) (auto split: list.splits)

lemma member_contains:
  "m \<in> set (split_chr d s) \<Longrightarrow> contains s m"
proof (induction s arbitrary: m)
  case Nil
  then show ?case by simp
next
  case (Cons c s)
  obtain x xs where sp: "split_chr d s = x # xs"
    using split_chr_nonempty [of d s] by (cases "split_chr d s") auto
  show ?case
  proof (cases "c = d")
    case True
    with Cons.prems sp have "m = [] \<or> m \<in> set (split_chr d s)" by auto
    then show ?thesis
    proof
      assume "m = []" then show ?thesis by simp
    next
      assume "m \<in> set (split_chr d s)"
      then have "contains s m" by (rule Cons.IH)
      then show ?thesis by simp
    qed
  next
    case False
    with Cons.prems sp have "m = c # x \<or> m \<in> set xs" by auto
    then show ?thesis
    proof
      assume m: "m = c # x"
      have "x \<in> set (split_chr d s)" using sp by simp
      have px: "\<exists>r. s = x @ r" using sp
      proof (induction s arbitrary: x xs)
        case Nil
        then show ?case by simp
      next
        case (Cons a s)
        obtain y ys where spy: "split_chr d s = y # ys"
          using split_chr_nonempty [of d s] by (cases "split_chr d s") auto
        show ?case
        proof (cases "a = d")
          case True
          with Cons.prems spy have "x = []" by simp
          then show ?thesis by simp
        next
          case False
          with Cons.prems spy have "x = a # y" by simp
          moreover obtain r where "s = y @ r" using Cons.IH [OF spy] by auto
          ultimately show ?thesis by simp
        qed
      qed
      then obtain r where "s = x @ r" by auto
      then have "startswith (c # s) m" using m by (simp add: startswith_append)
      then show ?thesis by simp
    next
      assume "m \<in> set xs"
      then have "m \<in> set (split_chr d s)" using sp by simp
      then have "contains s m" by (rule Cons.IH)
      then show ?thesis by simp
    qed
  qed
qed




section \<open>The KEGG cache: lemmas\<close>

lemma txt_dat: "kegg_txt e i \<noteq> kegg_dat e i"
  by (simp add: kegg_txt_def kegg_dat_def)

lemma kegg_paths_dir:
  "cached_dir_kegg e' = cached_dir_kegg e \<Longrightarrow> kegg_txt e' i = kegg_txt e i \<and> kegg_dat e' i = kegg_dat e i"
  by (simp add: kegg_txt_def kegg_dat_def)

lemma kegg_lookup_txt:
  "files st (kegg_txt e i) = Some rc \<Longrightarrow> kegg_lookup e st i = (st, Some rc)"
  by (simp add: kegg_lookup_def)

lemma kegg_lookup_dat_empty:
  "files st (kegg_txt e i) = None \<Longrightarrow> files st (kegg_dat e i) = Some raw \<Longrightarrow> kegg_derive raw = []
   \<Longrightarrow> kegg_lookup e st i = (st, Some [])"
  by (simp add: kegg_lookup_def kegg_store_def)

lemma kegg_lookup_dat_text:
  "files st (kegg_txt e i) = None \<Longrightarrow> files st (kegg_dat e i) = Some raw \<Longrightarrow> kegg_derive raw \<noteq> []
   \<Longrightarrow> kegg_lookup e st i
       = (st\<lparr>files := (files st)(kegg_txt e i \<mapsto> sub_semi_end (kegg_derive raw))\<rparr>,
          Some (sub_semi_end (kegg_derive raw)))"
  by (simp add: kegg_lookup_def kegg_store_def)

lemma kegg_lookup_fetch_fail:
  "files st (kegg_txt e i) = None \<Longrightarrow> files st (kegg_dat e i) = None \<Longrightarrow> kegg_get e i = None
   \<Longrightarrow> kegg_lookup e st i = (st\<lparr>fetched := fetched st @ [i]\<rparr>, None)"
  by (simp add: kegg_lookup_def)

lemma kegg_lookup_fetch_ok:
  "files st (kegg_txt e i) = None \<Longrightarrow> files st (kegg_dat e i) = None \<Longrightarrow> kegg_get e i = Some raw
   \<Longrightarrow> kegg_lookup e st i
       = kegg_store (kegg_txt e i) (kegg_derive raw)
           (st\<lparr>files := (files st)(kegg_dat e i \<mapsto> raw), fetched := fetched st @ [i]\<rparr>)"
  by (simp add: kegg_lookup_def)

lemma kegg_second_lookup:
  assumes dir: "cached_dir_kegg e' = cached_dir_kegg e"
    and first: "kegg_lookup e st i = (st1, Some rc)"
  shows "kegg_lookup e' st1 i = (st1, Some rc)"
proof -
  have p: "kegg_txt e' i = kegg_txt e i" "kegg_dat e' i = kegg_dat e i"
    using kegg_paths_dir [OF dir] by simp_all
  note nq = txt_dat [of e i]
  show ?thesis
  proof (cases "files st (kegg_txt e i)")
    case (Some t)
    with first have "st1 = st" "rc = t" by (auto simp: kegg_lookup_txt)
    with Some show ?thesis by (simp add: kegg_lookup_def p)
  next
    case None
    note no_txt = None
    show ?thesis
    proof (cases "files st (kegg_dat e i)")
      case (Some raw)
      show ?thesis
      proof (cases "kegg_derive raw = []")
        case True
        with no_txt Some first have "st1 = st" "rc = []" by (auto simp: kegg_lookup_dat_empty)
        with no_txt Some True show ?thesis by (simp add: kegg_lookup_def kegg_store_def p)
      next
        case False
        with no_txt Some first
        have "st1 = st\<lparr>files := (files st)(kegg_txt e i \<mapsto> sub_semi_end (kegg_derive raw))\<rparr>"
          and "rc = sub_semi_end (kegg_derive raw)"
          by (auto simp: kegg_lookup_dat_text)
        then show ?thesis by (simp add: kegg_lookup_def p)
      qed
    next
      case None
      note no_dat = None
      show ?thesis
      proof (cases "kegg_get e i")
        case None
        with no_txt no_dat first show ?thesis by (simp add: kegg_lookup_fetch_fail)
      next
        case (Some raw)
        let ?st = "st\<lparr>files := (files st)(kegg_dat e i \<mapsto> raw), fetched := fetched st @ [i]\<rparr>"
        have f: "kegg_store (kegg_txt e i) (kegg_derive raw) ?st = (st1, Some rc)"
          using no_txt no_dat Some first by (simp add: kegg_lookup_fetch_ok)
        show ?thesis
        proof (cases "kegg_derive raw = []")
          case True
          with f have "st1 = ?st" "rc = []" by (auto simp: kegg_store_def)
          with no_txt True nq show ?thesis by (simp add: kegg_lookup_def kegg_store_def p)
        next
          case False
          with f have "st1 = ?st\<lparr>files := (files ?st)(kegg_txt e i \<mapsto> sub_semi_end (kegg_derive raw))\<rparr>"
            and "rc = sub_semi_end (kegg_derive raw)"
            by (auto simp: kegg_store_def)
          then show ?thesis by (simp add: kegg_lookup_def p)
        qed
      qed
    qed
  qed
qed

lemma kegg_fetched_grows:
  "fetched (fst (kegg_lookup e st i)) = fetched st \<or> fetched (fst (kegg_lookup e st i)) = fetched st @ [i]"
  by (auto simp: kegg_lookup_def kegg_store_def split: option.splits)

lemma kegg_lookup_none:
  "snd (kegg_lookup e st i) = None \<longleftrightarrow>
     files st (kegg_txt e i) = None \<and> files st (kegg_dat e i) = None \<and> kegg_get e i = None"
  by (auto simp: kegg_lookup_def kegg_store_def split: option.splits)







lemma kegg_derive_no_pathway: "search_pathway raw = None \<Longrightarrow> kegg_derive raw = []"
  by (simp add: kegg_derive_def)








section \<open>The frame of the metadata: lemmas\<close>

lemma index_of_XID_META: "index_of XID META = Some 1"
  by (simp add: XID_def META_def)

lemma length_np_concatenate: "length (np_concatenate vs) = length vs"
  by (simp add: np_concatenate_def)

lemma base_frame_eq:
  "base_frame e record IsoIds =
     Inr \<lparr>cols = base_cols,
          rows = map (\<lambda>(i, l, c). (Str i, base_row record l c))
                   (zip IsoIds (zip (np_concatenate (lengths_of e IsoIds)) (comms_of e IsoIds)))\<rparr>"
  by (simp add: base_frame_def set_index_def explode_def XID_def remove_nth_def
      base_cols_def base_row_def META_def case_prod_unfold comp_def)

lemma base_frame_keys:
  assumes "base_frame e record IsoIds = Inr df"
  shows "keys df = map Str IsoIds"
proof -
  let ?L = "np_concatenate (lengths_of e IsoIds)" and ?C = "comms_of e IsoIds"
  have len: "length (zip ?L ?C) = length IsoIds"
    by (simp add: length_np_concatenate lengths_of_def comms_of_def)
  have "keys df = map (\<lambda>p. Str (fst p)) (zip IsoIds (zip ?L ?C))"
    using assms unfolding base_frame_eq by (auto simp: keys_def case_prod_unfold comp_def)
  also have "\<dots> = map Str (map fst (zip IsoIds (zip ?L ?C)))" by (simp add: comp_def)
  also have "\<dots> = map Str IsoIds" using len by (simp add: map_fst_zip)
  finally show ?thesis .
qed

lemma base_frame_wf:
  assumes "base_frame e record IsoIds = Inr df"
  shows "wf_frame df" and "cols df = base_cols"
  using assms unfolding base_frame_eq
  by (auto simp: wf_frame_def list_all_iff base_row_def base_cols_def)

lemma base_frame_rows:
  assumes "base_frame e record IsoIds = Inr df" and "(k, vs) \<in> set (rows df)"
  shows "\<exists>l c. vs = base_row record l c"
  using assms unfolding base_frame_eq by force

lemma until_comma_free: "CHR '','' \<notin> set (until_comma s)"
  unfolding until_comma_def by (induction s) auto

lemma iso_tags_truncated:
  assumes "iso_tags c = Inr x" and "p \<in> set x"
  shows "CHR '','' \<notin> set (fst p) \<and> CHR '','' \<notin> set (snd p)"
  using assms until_comma_free
  by (auto simp: iso_tags_def split: sum.splits)

lemma variant_ids_truncated:
  assumes "iso_tags c = Inr x" and "v \<in> set (variant_ids x)"
  shows "CHR '','' \<notin> set v"
  using assms iso_tags_truncated [OF assms(1)]
  by (auto simp: variant_ids_def)

text \<open>The pairs are built unless the comment ends in a piece that starts with \<open>IsoId=\<close>.\<close>

lemma iso_pairs_total:
  "ap = [] \<or> \<not> startswith (last ap) ''IsoId='' \<Longrightarrow> \<exists>x. iso_pairs ap = Inr x"
proof (induction ap rule: iso_pairs.induct)
  case 1
  then show ?case by simp
next
  case (2 a)
  then show ?case by simp
next
  case (3 a b ap)
  then have "\<exists>x. iso_pairs (b # ap) = Inr x" by simp
  then show ?case by auto
qed

lemma iso_tags_total:
  "\<not> startswith (last (re_split_semi c)) ''IsoId='' \<Longrightarrow> \<exists>x. iso_tags c = Inr x"
  using iso_pairs_total [of "re_split_semi c"] by (auto simp: iso_tags_def)

section \<open>The outer join: lemmas\<close>

lemma rows_of_alt:
  "rows_of k df = (if rows_at k df = [] then [replicate (length (cols df)) NaN] else rows_at k df)"
  by (simp add: rows_of_def rows_at_def split: list.splits)

lemma rows_of_nonempty: "rows_of k df \<noteq> []"
  by (simp add: rows_of_alt)

lemma rows_at_empty_iff: "rows_at k df = [] \<longleftrightarrow> k \<notin> set (keys df)"
  by (auto simp: rows_at_def keys_def filter_empty_conv)

lemma rows_at_member: "l \<in> set (rows_at k df) \<longleftrightarrow> (k, l) \<in> set (rows df)"
  by (force simp: rows_at_def)

lemma rows_of_length:
  assumes "wf_frame df" and "l \<in> set (rows_of k df)"
  shows "length l = length (cols df)"
proof (cases "rows_at k df = []")
  case True
  with assms(2) show ?thesis by (simp add: rows_of_alt)
next
  case False
  with assms(2) have "(k, l) \<in> set (rows df)" by (simp add: rows_of_alt rows_at_member)
  with assms(1) show ?thesis by (auto simp: wf_frame_def list_all_iff)
qed

lemma set_insert_key: "set (insert_key k ks) = insert k (set ks)"
  by (induction ks) auto

lemma set_sort_keys: "set (sort_keys ks) = set ks"
  unfolding sort_keys_def by (induction ks) (auto simp: set_insert_key)

lemma distinct_insert_key: "distinct ks \<Longrightarrow> k \<notin> set ks \<Longrightarrow> distinct (insert_key k ks)"
  by (induction ks) (auto simp: set_insert_key)

lemma distinct_sort_keys: "distinct ks \<Longrightarrow> distinct (sort_keys ks)"
  unfolding sort_keys_def
proof (induction ks)
  case Nil
  then show ?case by simp
next
  case (Cons k ks)
  have "set (foldr insert_key ks []) = set ks"
    using set_sort_keys [of ks] by (simp add: sort_keys_def)
  with Cons show ?case by (simp add: distinct_insert_key)
qed

lemma join_rows_member:
  "(k', vs) \<in> set (join_rows df1 df2 k) \<longleftrightarrow>
     k' = k \<and> (\<exists>l r. vs = l @ r \<and> l \<in> set (rows_of k df1) \<and> r \<in> set (rows_of k df2))"
  by (auto simp: join_rows_def)

lemma join_rows_keys: "fst ` set (join_rows df1 df2 k) = {k}"
proof -
  have "rows_of k df1 \<noteq> []" "rows_of k df2 \<noteq> []" by (rule rows_of_nonempty)+
  then obtain l ls r rs where "rows_of k df1 = l # ls" "rows_of k df2 = r # rs"
    by (meson list.exhaust)
  then show ?thesis
    by (auto simp: join_rows_def image_iff)
qed

lemma join_rows_filter:
  "filter (\<lambda>r. fst r = k') (join_rows df1 df2 k) = (if k' = k then join_rows df1 df2 k else [])"
  by (auto simp: join_rows_def filter_concat filter_map comp_def filter_empty_conv intro!: filter_True)

lemma filter_concat_distinct:
  assumes "distinct ks"
  shows "filter (\<lambda>r. fst r = k) (concat (map (join_rows df1 df2) ks))
         = (if k \<in> set ks then join_rows df1 df2 k else [])"
  using assms
proof (induction ks)
  case Nil
  then show ?case by simp
next
  case (Cons a ks)
  then show ?case by (auto simp: join_rows_filter)
qed

lemma join_outer_rows:
  assumes "join_outer df1 df2 = Inr df"
  shows "rows df = concat (map (join_rows df1 df2)
                      (sort_keys (remdups (map fst (rows df1) @ map fst (rows df2)))))"
  using assms by (auto simp: join_outer_def split: if_splits)

lemma join_outer_cols: "join_outer df1 df2 = Inr df \<Longrightarrow> cols df = cols df1 @ cols df2"
  by (auto simp: join_outer_def split: if_splits)

lemma join_outer_keys:
  assumes "join_outer df1 df2 = Inr df"
  shows "set (keys df) = set (keys df1) \<union> set (keys df2)"
proof -
  let ?ks = "sort_keys (remdups (map fst (rows df1) @ map fst (rows df2)))"
  have "set (keys df) = (\<Union>k\<in>set ?ks. fst ` set (join_rows df1 df2 k))"
    unfolding keys_def join_outer_rows [OF assms] by auto
  also have "\<dots> = set ?ks" by (simp add: join_rows_keys)
  also have "\<dots> = set (keys df1) \<union> set (keys df2)"
    by (simp add: set_sort_keys keys_def)
  finally show ?thesis .
qed

lemma join_outer_row:
  assumes "join_outer df1 df2 = Inr df" and "(k, vs) \<in> set (rows df)"
  shows "\<exists>l r. vs = l @ r \<and> l \<in> set (rows_of k df1) \<and> r \<in> set (rows_of k df2)"
  using assms(2) unfolding join_outer_rows [OF assms(1)]
  by (auto simp: join_rows_member)

lemma join_outer_rows_at:
  assumes "join_outer df1 df2 = Inr df" and "k \<in> set (keys df1) \<union> set (keys df2)"
  shows "rows_at k df = concat (map (\<lambda>l. map (\<lambda>r. l @ r) (rows_of k df2)) (rows_of k df1))"
proof -
  let ?ks = "sort_keys (remdups (map fst (rows df1) @ map fst (rows df2)))"
  have d: "distinct ?ks" by (simp add: distinct_sort_keys)
  have m: "k \<in> set ?ks" using assms(2) by (simp add: set_sort_keys keys_def)
  have "filter (\<lambda>r. fst r = k) (rows df) = join_rows df1 df2 k"
    unfolding join_outer_rows [OF assms(1)] using filter_concat_distinct [OF d, of k df1 df2] m by simp
  then show ?thesis
    by (simp add: rows_at_def join_rows_def map_concat comp_def)
qed

lemma length_concat_product:
  "length (concat (map (\<lambda>l. map (f l) ys) xs)) = length xs * length ys"
  by (induction xs) simp_all

lemma join_outer_count:
  assumes "join_outer df1 df2 = Inr df" and "k \<in> set (keys df1) \<union> set (keys df2)"
  shows "length (rows_at k df) = length (rows_of k df1) * length (rows_of k df2)"
  unfolding join_outer_rows_at [OF assms] by (rule length_concat_product)

lemma join_outer_wf:
  assumes "wf_frame df1" and "wf_frame df2" and "join_outer df1 df2 = Inr df"
  shows "wf_frame df"
proof -
  have "length vs = length (cols df)" if rw: "(k, vs) \<in> set (rows df)" for k vs
  proof -
    obtain l r where "vs = l @ r" "l \<in> set (rows_of k df1)" "r \<in> set (rows_of k df2)"
      using join_outer_row [OF assms(3) rw] by blast
    then show ?thesis
      using rows_of_length [OF assms(1)] rows_of_length [OF assms(2)]
      by (simp add: join_outer_cols [OF assms(3)])
  qed
  then show ?thesis by (auto simp: wf_frame_def list_all_iff)
qed

section \<open>The passes of the two loops: lemmas\<close>

lemma DataFrame_Inr:
  "DataFrame xcols xvals = Inr t \<Longrightarrow> t = (xcols, xvals) \<and> wf_table t"
  by (auto simp: DataFrame_def wf_table_def split: if_splits)

lemma index_of_Some: "index_of x xs = Some p \<Longrightarrow> p < length xs \<and> xs ! p = x"
  by (induction xs arbitrary: p) (auto split: if_splits)

lemma length_remove_nth: "p < length xs \<Longrightarrow> length (remove_nth p xs) = length xs - 1"
  by (simp add: remove_nth_def)

lemma set_remove_nth: "set (remove_nth p xs) \<subseteq> set xs"
  unfolding remove_nth_def using set_take_subset [of p xs] set_drop_subset [of "Suc p" xs] by auto

lemma set_index_Inr:
  assumes "set_index name t = Inr df"
  shows "\<exists>p. index_of name (fst t) = Some p \<and> cols df = remove_nth p (fst t)
          \<and> rows df = map (\<lambda>r. (r ! p, remove_nth p r)) (snd t)"
  using assms by (auto simp: set_index_def split: option.splits)

lemma set_index_wf:
  assumes "wf_table t" and "set_index name t = Inr df"
  shows "wf_frame df"
proof -
  obtain p where p: "index_of name (fst t) = Some p" "cols df = remove_nth p (fst t)"
      "rows df = map (\<lambda>r. (r ! p, remove_nth p r)) (snd t)"
    using set_index_Inr [OF assms(2)] by blast
  have lt: "p < length (fst t)" using index_of_Some [OF p(1)] by simp
  have "length (remove_nth p r) = length (remove_nth p (fst t))" if "r \<in> set (snd t)" for r
  proof -
    have "length r = length (fst t)" using assms(1) that by (simp add: wf_table_def list_all_iff)
    then show ?thesis using lt by (simp add: length_remove_nth)
  qed
  then show ?thesis by (auto simp: wf_frame_def list_all_iff p)
qed

lemma assign_column_wf:
  assumes "wf_table t" and "assign_column name vs t = Inr t'"
  shows "wf_table t'"
proof -
  obtain p where t': "t' = (fst t, map (\<lambda>(r, v). r[p := v]) (zip (snd t) vs))"
    using assms(2) by (auto simp: assign_column_def split: option.splits if_splits)
  have "length (r[p := v]) = length (fst t)" if "(r, v) \<in> set (zip (snd t) vs)" for r v
  proof -
    have "r \<in> set (snd t)" using that by (rule set_zip_leftD)
    then show ?thesis using assms(1) by (simp add: wf_table_def list_all_iff)
  qed
  then show ?thesis by (auto simp: wf_table_def list_all_iff t')
qed

lemma join_xterm_joins:
  assumes "wf_table t" and "join_xterm IsoIds df1 t = Inr df"
  shows "joins df1 df"
proof (cases "dropna_empty t")
  case True
  with assms(2) show ?thesis by (simp add: join_xterm_def joins_def)
next
  case False
  with assms(2) obtain no_ids t' df2 where
      t': "(if no_ids then assign_column XID (map Str IsoIds) t else Inr t) = Inr t'"
      and df2: "set_index XID t' = Inr df2" and j: "join_outer df1 df2 = Inr df"
    by (auto simp: join_xterm_def split: sum.splits)
  have "wf_table t'"
    using t' assms(1) assign_column_wf by (auto split: if_splits)
  then have "wf_frame df2" using df2 by (rule set_index_wf)
  with j show ?thesis by (auto simp: joins_def)
qed

lemma xterm_step_joins:
  assumes "xterm_step acc disp IsoIds xrefs terms df1 = Inr df"
  shows "joins df1 df"
proof -
  obtain xvals t where "DataFrame (snd terms) xvals = Inr t" and j: "join_xterm IsoIds df1 t = Inr df"
    using assms by (auto simp: xterm_step_def split: sum.splits)
  then have "wf_table t" using DataFrame_Inr by blast
  then show ?thesis using j by (rule join_xterm_joins)
qed

lemma pad_rows_lengths:
  assumes "\<forall>r\<in>set rs. length r = w"
  shows "\<forall>r\<in>set (pad_rows n w rs). length r = w"
  using assms by (auto simp: pad_rows_def)

lemma length_pad_rows: "length rs \<le> n \<Longrightarrow> length (pad_rows n w rs) = n"
  by (simp add: pad_rows_def)

lemma concat_axis1_wf:
  assumes "wf_table a" and "wf_table b"
  shows "wf_table (concat_axis1 a b)"
proof -
  define A where "A = pad_rows (max (length (snd a)) (length (snd b))) (length (fst a)) (snd a)"
  define B where "B = pad_rows (max (length (snd a)) (length (snd b))) (length (fst b)) (snd b)"
  have la: "\<forall>r\<in>set A. length r = length (fst a)"
    unfolding A_def using assms(1) by (intro pad_rows_lengths) (simp add: wf_table_def list_all_iff)
  have lb: "\<forall>r\<in>set B. length r = length (fst b)"
    unfolding B_def using assms(2) by (intro pad_rows_lengths) (simp add: wf_table_def list_all_iff)
  have eq: "concat_axis1 a b = (fst a @ fst b, map (\<lambda>(r, q). r @ q) (zip A B))"
    by (simp add: concat_axis1_def A_def B_def)
  have "length x = length (fst a @ fst b)" if x: "x \<in> set (map (\<lambda>(r, q). r @ q) (zip A B))" for x
  proof -
    from x obtain r q where rq: "(r, q) \<in> set (zip A B)" and xe: "x = r @ q" by auto
    have "r \<in> set A" using rq by (rule set_zip_leftD)
    moreover have "q \<in> set B" using rq by (rule set_zip_rightD)
    ultimately show ?thesis using la lb xe by simp
  qed
  then show ?thesis unfolding eq wf_table_def list_all_iff by simp
qed

lemma length_fill_row: "length prev = length r \<Longrightarrow> length (fill_row prev r) = length r"
  by (simp add: fill_row_def)

lemma ffill_from_wf:
  assumes "length prev = w" and "list_all (\<lambda>r. length r = w) rs"
  shows "list_all (\<lambda>r. length r = w) (ffill_from prev rs)"
  using assms by (induction rs arbitrary: prev) (simp_all add: length_fill_row)

lemma ffill_wf:
  assumes "wf_table t"
  shows "wf_table (ffill t)"
proof (cases "snd t")
  case Nil
  then show ?thesis by (simp add: ffill_def wf_table_def)
next
  case (Cons r rs)
  have r: "length r = length (fst t)" and rs: "list_all (\<lambda>r. length r = length (fst t)) rs"
    using assms Cons by (simp_all add: wf_table_def)
  have "list_all (\<lambda>r. length r = length (fst t)) (ffill_from r rs)"
    using r rs by (rule ffill_from_wf)
  then show ?thesis using r Cons by (simp add: ffill_def wf_table_def)
qed

lemma isoid_table_wf: "wf_table (isoid_table IsoIds)"
  by (simp add: isoid_table_def wf_table_def list_all_iff)

lemma join_cterm_joins:
  assumes "wf_table t" and "join_cterm IsoIds df1 t = Inr df"
  shows "joins df1 df"
proof (cases "dropna_empty t")
  case True
  with assms(2) show ?thesis by (simp add: join_cterm_def joins_def)
next
  case False
  with assms(2) obtain df2 where
      df2: "set_index XID (ffill (concat_axis1 t (isoid_table IsoIds))) = Inr df2"
      and j: "join_outer df1 df2 = Inr df"
    by (auto simp: join_cterm_def split: sum.splits)
  have "wf_table (ffill (concat_axis1 t (isoid_table IsoIds)))"
    using assms(1) isoid_table_wf by (intro ffill_wf concat_axis1_wf)
  then have "wf_frame df2" using df2 by (rule set_index_wf)
  with j show ?thesis by (auto simp: joins_def)
qed

lemma cterm_step_joins:
  assumes "cterm_step e st acc IsoIds xrefs terms df1 = Inr (st', df)"
  shows "joins df1 df"
proof -
  obtain xcols xvals t where "DataFrame xcols xvals = Inr t" and j: "join_cterm IsoIds df1 t = Inr df"
    using assms by (auto simp: cterm_step_def split: sum.splits prod.splits)
  then have "wf_table t" using DataFrame_Inr by blast
  then show ?thesis using j by (rule join_cterm_joins)
qed

section \<open>What the merged frame keeps of the metadata: lemmas\<close>

lemma carries_refl:
  assumes "wf_frame b"
  shows "carries b b"
proof -
  have "(fst r, take (length (cols b)) (snd r)) \<in> set (rows b)" if r: "r \<in> set (rows b)" for r
  proof -
    have "length (snd r) = length (cols b)"
      using assms r by (simp add: wf_frame_def list_all_iff)
    then show ?thesis using r by simp
  qed
  then show ?thesis
    using assms by (simp add: carries_def list_all_iff)
qed

lemma carries_join:
  assumes c: "carries b df1" and w2: "wf_frame df2" and j: "join_outer df1 df2 = Inr df"
  shows "carries b df"
proof -
  define n where "n = length (cols b)"
  have w1: "wf_frame df1" and tk: "take n (cols df1) = cols b"
    and ks: "set (keys b) \<subseteq> set (keys df1)"
    and rw: "\<And>r. r \<in> set (rows df1) \<Longrightarrow>
              (fst r, take n (snd r)) \<in> set (rows b)
              \<or> (fst r \<notin> set (keys b) \<and> take n (snd r) = replicate n NaN)"
    using c by (simp_all add: carries_def list_all_iff n_def)
  have le: "n \<le> length (cols df1)"
  proof -
    have "length (take n (cols df1)) = n" using tk by (simp add: n_def)
    then show ?thesis by simp
  qed
  have wf: "wf_frame df" using w1 w2 j by (rule join_outer_wf)
  have cs: "take n (cols df) = cols b"
    using tk le by (simp add: join_outer_cols [OF j])
  have kk: "set (keys b) \<subseteq> set (keys df)"
    using ks by (auto simp: join_outer_keys [OF j])
  have rr: "(fst x, take n (snd x)) \<in> set (rows b)
            \<or> (fst x \<notin> set (keys b) \<and> take n (snd x) = replicate n NaN)"
    if x: "x \<in> set (rows df)" for x
  proof -
    obtain k vs where xe: "x = (k, vs)" by (cases x)
    with x have "(k, vs) \<in> set (rows df)" by simp
    then obtain l r where vs: "vs = l @ r" and l: "l \<in> set (rows_of k df1)"
      using join_outer_row [OF j] by blast
    have ll: "length l = length (cols df1)" using w1 l by (rule rows_of_length)
    then have t: "take n vs = take n l" using le by (simp add: vs)
    show ?thesis
    proof (cases "rows_at k df1 = []")
      case True
      then have "l = replicate (length (cols df1)) NaN" using l by (simp add: rows_of_alt)
      then have "take n l = replicate n NaN" using le by (simp add: min_def)
      moreover have "k \<notin> set (keys b)"
        using True ks by (auto simp: rows_at_empty_iff)
      ultimately show ?thesis by (simp add: xe t)
    next
      case False
      then have "(k, l) \<in> set (rows df1)" using l by (simp add: rows_of_alt rows_at_member)
      from rw [OF this] show ?thesis by (simp add: xe t)
    qed
  qed
  show ?thesis
    unfolding carries_def list_all_iff using wf cs kk rr by (simp add: n_def)
qed

lemma carries_joins: "carries b df1 \<Longrightarrow> joins df1 df \<Longrightarrow> carries b df"
  unfolding joins_def using carries_join by blast

lemma xterm_loop_carries:
  "xterm_loop acc disp IsoIds xrefs ts df1 = Inr df \<Longrightarrow> carries b df1 \<Longrightarrow> carries b df"
proof (induction ts arbitrary: df1)
  case Nil
  then show ?case by simp
next
  case (Cons t ts)
  from Cons.prems(1) obtain d where s: "xterm_step acc disp IsoIds xrefs t df1 = Inr d"
      and l: "xterm_loop acc disp IsoIds xrefs ts d = Inr df"
    by (cases "xterm_step acc disp IsoIds xrefs t df1") auto
  have "carries b d" using Cons.prems(2) xterm_step_joins [OF s] by (rule carries_joins)
  with l show ?case by (rule Cons.IH)
qed

lemma cterm_loop_carries:
  "cterm_loop e st acc IsoIds xrefs ts df1 = Inr (st', df) \<Longrightarrow> carries b df1 \<Longrightarrow> carries b df"
proof (induction ts arbitrary: df1 st)
  case Nil
  then show ?case by simp
next
  case (Cons t ts)
  from Cons.prems(1) obtain s1 d where s: "cterm_step e st acc IsoIds xrefs t df1 = Inr (s1, d)"
      and l: "cterm_loop e s1 acc IsoIds xrefs ts d = Inr (st', df)"
    by (cases "cterm_step e st acc IsoIds xrefs t df1") auto
  have "carries b d" using Cons.prems(2) cterm_step_joins [OF s] by (rule carries_joins)
  with l show ?case by (rule Cons.IH)
qed

lemma create_qreport_record_Inr:
  assumes "create_qreport_record e st record = Inr (st', df)"
  shows "\<exists>acc accs IsoIds disp b d.
           accessions record = acc # accs
           \<and> isoforms acc (comments record) = Inr (IsoIds, disp)
           \<and> base_frame e record IsoIds = Inr b
           \<and> xterm_loop acc disp IsoIds (cross_references record) XTERMS b = Inr d
           \<and> cterm_loop e st acc IsoIds (cross_references record) CTERMS d = Inr (st', df)"
  using assms
  by (auto simp: create_qreport_record_def split: list.splits sum.splits prod.splits)

lemma create_qreport_record_carries:
  assumes "create_qreport_record e st record = Inr (st', df)"
    and "accessions record = acc # accs"
    and "isoforms acc (comments record) = Inr (IsoIds, disp)"
    and "base_frame e record IsoIds = Inr b"
  shows "carries b df"
proof -
  obtain d where x: "xterm_loop acc disp IsoIds (cross_references record) XTERMS b = Inr d"
    and c: "cterm_loop e st acc IsoIds (cross_references record) CTERMS d = Inr (st', df)"
    using create_qreport_record_Inr [OF assms(1)] assms(2-4) by auto
  have "carries b b" using base_frame_wf(1) [OF assms(4)] by (rule carries_refl)
  with x have "carries b d" by (rule xterm_loop_carries)
  with c show ?thesis by (rule cterm_loop_carries)
qed

section \<open>The cells of the merged frame: lemmas\<close>

lemma qreport_frame_Inr:
  "qreport_frame e st record = Inr df \<Longrightarrow> \<exists>st'. create_qreport_record e st record = Inr (st', df)"
  by (cases "create_qreport_record e st record") (auto simp: qreport_frame_def)

lemma index_of_append: "index_of x ys = Some j \<Longrightarrow> index_of x (ys @ zs) = Some j"
  by (induction ys arbitrary: j) (auto split: if_splits)

lemma index_of_take:
  assumes "take n xs = ys" and "index_of x ys = Some j"
  shows "index_of x xs = Some j"
proof -
  have "xs = ys @ drop n xs" using assms(1) by (metis append_take_drop_id)
  then show ?thesis using index_of_append [OF assms(2)] by metis
qed

lemma carries_cell:
  assumes c: "carries b df" and r: "r \<in> set (rows df)" and i: "index_of name (cols b) = Some j"
  shows "cell_of df name r = Some (take (length (cols b)) (snd r) ! j)"
proof -
  have tk: "take (length (cols b)) (cols df) = cols b" using c by (simp add: carries_def)
  have ix: "index_of name (cols df) = Some j" using tk i by (rule index_of_take)
  have "j < length (cols b)" using index_of_Some [OF i] by simp
  then show ?thesis by (simp add: cell_of_def ix)
qed

lemma carries_row:
  assumes c: "carries b df" and r: "r \<in> set (rows df)"
  shows "(fst r \<in> set (keys b) \<longrightarrow> (fst r, take (length (cols b)) (snd r)) \<in> set (rows b))
       \<and> (fst r \<notin> set (keys b) \<longrightarrow> take (length (cols b)) (snd r) = replicate (length (cols b)) NaN)"
proof -
  have d: "(fst r, take (length (cols b)) (snd r)) \<in> set (rows b)
        \<or> (fst r \<notin> set (keys b) \<and> take (length (cols b)) (snd r) = replicate (length (cols b)) NaN)"
    using c r by (simp add: carries_def list_all_iff)
  have "fst r \<in> set (keys b)" if m: "(fst r, take (length (cols b)) (snd r)) \<in> set (rows b)"
  proof -
    have "fst (fst r, take (length (cols b)) (snd r)) \<in> fst ` set (rows b)"
      using m by (rule imageI)
    then show ?thesis by (simp add: keys_def)
  qed
  with d show ?thesis by blast
qed

lemma base_cols_index:
  "index_of ''xref_UniProt_Name'' base_cols = Some 0"
  "index_of ''Gene'' base_cols = Some 1"
  "index_of ''Species'' base_cols = Some 2"
  "index_of ''Length'' base_cols = Some 3"
  "index_of ''Description'' base_cols = Some 4"
  "index_of ''Comment_Line'' base_cols = Some 5"
  "index_of ''prot_UniProt_Class'' base_cols = Some 6"
  by (simp_all add: base_cols_def)

lemma base_cols_index_ex: "name \<in> set base_cols \<Longrightarrow> \<exists>j<7. index_of name base_cols = Some j"
  by (auto simp: base_cols_def)

section \<open>The pass of one database: lemmas\<close>

lemma collect_Inr: "collect rs = Inr ys \<Longrightarrow> rs = map Inr ys"
proof (induction rs arbitrary: ys)
  case Nil
  then show ?case by simp
next
  case (Cons r rs)
  then show ?case by (auto split: sum.splits)
qed

lemma collect_map_Inr:
  assumes "collect (map f xs) = Inr ys"
  shows "length ys = length xs" and "\<And>i. i < length xs \<Longrightarrow> f (xs ! i) = Inr (ys ! i)"
proof -
  have m: "map f xs = map Inr ys" using assms by (rule collect_Inr)
  then show l: "length ys = length xs" by (metis length_map)
  fix i assume "i < length xs"
  then show "f (xs ! i) = Inr (ys ! i)"
    using m l by (metis nth_map)
qed

lemma joins_keys: "joins df1 df \<Longrightarrow> set (keys df1) \<subseteq> set (keys df)"
  unfolding joins_def using join_outer_keys by auto

lemma xterm_loop_keys:
  "xterm_loop acc disp IsoIds xrefs ts df1 = Inr df \<Longrightarrow> set (keys df1) \<subseteq> set (keys df)"
proof (induction ts arbitrary: df1)
  case Nil
  then show ?case by simp
next
  case (Cons t ts)
  from Cons.prems obtain d where s: "xterm_step acc disp IsoIds xrefs t df1 = Inr d"
      and l: "xterm_loop acc disp IsoIds xrefs ts d = Inr df"
    by (cases "xterm_step acc disp IsoIds xrefs t df1") auto
  have "set (keys df1) \<subseteq> set (keys d)" using xterm_step_joins [OF s] by (rule joins_keys)
  also have "\<dots> \<subseteq> set (keys df)" using l by (rule Cons.IH)
  finally show ?case .
qed

lemma cterm_loop_keys:
  "cterm_loop e st acc IsoIds xrefs ts df1 = Inr (st', df) \<Longrightarrow> set (keys df1) \<subseteq> set (keys df)"
proof (induction ts arbitrary: df1 st)
  case Nil
  then show ?case by simp
next
  case (Cons t ts)
  from Cons.prems obtain s1 d where s: "cterm_step e st acc IsoIds xrefs t df1 = Inr (s1, d)"
      and l: "cterm_loop e s1 acc IsoIds xrefs ts d = Inr (st', df)"
    by (cases "cterm_step e st acc IsoIds xrefs t df1") auto
  have "set (keys df1) \<subseteq> set (keys d)" using cterm_step_joins [OF s] by (rule joins_keys)
  also have "\<dots> \<subseteq> set (keys df)" using l by (rule Cons.IH)
  finally show ?case .
qed

lemma all_nan_replicate: "all_nan (replicate n NaN)"
  by (simp add: all_nan_def list_all_iff)

lemma xref_values_absent:
  assumes "rcross (map fst XTERMS) xrefs (fst terms) = []"
  shows "xref_values acc disp xrefs terms = Inr (one_row (replicate (length (snd terms)) NaN))"
  using assms by (simp add: xref_values_def map_replicate_const)

lemma xterm_step_absent:
  assumes "rcross (map fst XTERMS) xrefs (fst terms) = []"
  shows "xterm_step acc disp IsoIds xrefs terms df1 = Inr df1"
  using all_nan_replicate
  by (simp add: xterm_step_def xref_values_absent [OF assms] one_row_def DataFrame_def
      join_xterm_def dropna_empty_def)

lemma join_xterm_present:
  assumes ix: "index_of XID (fst t) = Some p"
    and ne: "snd t \<noteq> []"
    and ks: "\<forall>r\<in>set (snd t). r ! p \<noteq> NaN \<and> p < length r"
    and j: "join_xterm IsoIds df1 t = Inr df"
  shows "join_outer df1 \<lparr>cols = remove_nth p (fst t),
                          rows = map (\<lambda>r. (r ! p, remove_nth p r)) (snd t)\<rparr> = Inr df"
proof -
  obtain r rs where rr: "snd t = r # rs" using ne by (cases "snd t") auto
  have rp: "r ! p \<noteq> NaN" "p < length r" using ks rr by simp_all
  have "\<not> all_nan r"
    using rp by (auto simp: all_nan_def list_all_iff dest: nth_mem)
  then have d: "\<not> dropna_empty t"
    using ix rr by (auto simp: dropna_empty_def)
  have c: "column_empty XID t = Inr False"
    using rp by (simp add: column_empty_def ix rr)
  show ?thesis
    using j by (simp add: join_xterm_def d c set_index_def ix)
qed

lemma xref_row_Inr:
  assumes "xref_row xdb acc disp rcont = Inr r" and "xdb \<in> set (map fst XTERMS)"
  shows "r \<noteq> [] \<and> length r = length (the (map_of XTERMS xdb))
         \<and> last r = Str (iso_of acc disp (bracket_field xdb rcont))
         \<and> (\<forall>c\<in>set r. c \<noteq> NaN)"
  using assms
  by (auto simp: xref_row_def XTERMS_def bracket_field_def split: if_splits)

lemma XTERMS_entry:
  assumes "terms \<in> set XTERMS"
  shows "fst terms \<in> set (map fst XTERMS)"
    and "fst terms \<in> set [''Ensembl'', ''RefSeq'', ''CCDS'']"
    and "the (map_of XTERMS (fst terms)) = snd terms"
    and "snd terms \<noteq> []"
    and "index_of XID (snd terms) = Some (length (snd terms) - 1)"
  using assms by (auto simp: XTERMS_def XID_def)

lemma remove_nth_last: "xs \<noteq> [] \<Longrightarrow> remove_nth (length xs - 1) xs = butlast xs"
  by (simp add: remove_nth_def butlast_conv_take)

lemma xterm_step_present:
  assumes t: "terms \<in> set XTERMS"
    and pr: "rcross (map fst XTERMS) xrefs (fst terms) \<noteq> []"
    and s: "xterm_step acc disp IsoIds xrefs terms df1 = Inr df"
  shows "\<exists>df2. wf_frame df2 \<and> join_outer df1 df2 = Inr df
           \<and> keys df2 = map Str (xref_ids acc disp xrefs (fst terms))
           \<and> cols df2 = butlast (snd terms)"
proof -
  define rconts where "rconts = rcross (map fst XTERMS) xrefs (fst terms)"
  define p where "p = length (snd terms) - 1"
  note te = XTERMS_entry [OF t]
  have xv: "xref_values acc disp xrefs terms
            = collect (map (xref_row (fst terms) acc disp) rconts)"
    using pr te(2) unfolding rconts_def xref_values_def
    by (cases "rcross (map fst XTERMS) xrefs (fst terms)") simp_all
  from s obtain xvals tt where c: "collect (map (xref_row (fst terms) acc disp) rconts) = Inr xvals"
      and dfr: "DataFrame (snd terms) xvals = Inr tt" and j: "join_xterm IsoIds df1 tt = Inr df"
    unfolding xterm_step_def xv by (auto split: sum.splits)
  have tt: "tt = (snd terms, xvals)"
    using DataFrame_Inr [OF dfr] by (rule conjunct1)
  have wt: "wf_table tt"
    using DataFrame_Inr [OF dfr] by (rule conjunct2)
  have len: "length xvals = length rconts" using c by (rule collect_map_Inr(1))
  have row: "xvals ! i \<noteq> [] \<and> length (xvals ! i) = length (snd terms)
             \<and> last (xvals ! i) = Str (iso_of acc disp (bracket_field (fst terms) (rconts ! i)))"
    if i: "i < length rconts" for i
    using xref_row_Inr [OF collect_map_Inr(2) [OF c i] te(1)] by (simp add: te(3))
  have cell: "xvals ! i ! p = Str (iso_of acc disp (bracket_field (fst terms) (rconts ! i)))"
    if i: "i < length rconts" for i
  proof -
    from row [OF i] have n: "xvals ! i \<noteq> []" and l: "length (xvals ! i) = length (snd terms)"
      and e: "last (xvals ! i) = Str (iso_of acc disp (bracket_field (fst terms) (rconts ! i)))"
      by blast+
    have "xvals ! i ! p = last (xvals ! i)"
      unfolding p_def l [symmetric] using last_conv_nth [OF n] by simp
    then show ?thesis by (simp only: e)
  qed
  have ix: "index_of XID (fst tt) = Some p" using te(5) by (simp add: tt p_def)
  have ne: "snd tt \<noteq> []" using pr len by (auto simp: tt rconts_def)
  have ks: "\<forall>r\<in>set (snd tt). r ! p \<noteq> NaN \<and> p < length r"
  proof
    fix r assume "r \<in> set (snd tt)"
    then obtain i where i: "i < length rconts" and r: "r = xvals ! i"
      using len by (auto simp: tt in_set_conv_nth)
    show "r ! p \<noteq> NaN \<and> p < length r"
      using cell [OF i] row [OF i] te(4) by (simp add: r p_def)
  qed
  define df2 where "df2 = \<lparr>cols = remove_nth p (fst tt),
                             rows = map (\<lambda>r. (r ! p, remove_nth p r)) (snd tt)\<rparr>"
  have jo: "join_outer df1 df2 = Inr df"
    unfolding df2_def using ix ne ks j by (rule join_xterm_present)
  have "set_index XID tt = Inr df2" by (simp add: set_index_def ix df2_def)
  with wt have w: "wf_frame df2" by (rule set_index_wf)
  have k: "keys df2 = map Str (xref_ids acc disp xrefs (fst terms))"
    using len cell
    by (auto simp: keys_def df2_def tt xref_ids_def rconts_def comp_def list_eq_iff_nth_eq)
  have cc: "cols df2 = butlast (snd terms)"
    using remove_nth_last [OF te(4)] by (simp add: df2_def tt p_def)
  show ?thesis using w jo k cc by blast
qed

lemma xterm_loop_family_keys:
  assumes "xterm_loop acc disp IsoIds xrefs ts df1 = Inr df"
    and "terms \<in> set ts" and "set ts \<subseteq> set XTERMS"
  shows "Str ` set (xref_ids acc disp xrefs (fst terms)) \<subseteq> set (keys df)"
  using assms
proof (induction ts arbitrary: df1)
  case Nil
  then show ?case by simp
next
  case (Cons t ts)
  from Cons.prems(1) obtain d where s: "xterm_step acc disp IsoIds xrefs t df1 = Inr d"
      and l: "xterm_loop acc disp IsoIds xrefs ts d = Inr df"
    by (cases "xterm_step acc disp IsoIds xrefs t df1") auto
  show ?case
  proof (cases "terms = t")
    case True
    show ?thesis
    proof (cases "rcross (map fst XTERMS) xrefs (fst terms) = []")
      case e: True
      then show ?thesis by (simp add: xref_ids_def)
    next
      case False
      have "t \<in> set XTERMS" using Cons.prems(3) by simp
      then obtain df2 where "join_outer df1 df2 = Inr d"
          and "keys df2 = map Str (xref_ids acc disp xrefs (fst terms))"
        using xterm_step_present [of t xrefs acc disp IsoIds df1 d] False s True by blast
      then have "Str ` set (xref_ids acc disp xrefs (fst terms)) \<subseteq> set (keys d)"
        using join_outer_keys [of df1 df2 d] by auto
      also have "\<dots> \<subseteq> set (keys df)" using l by (rule xterm_loop_keys)
      finally show ?thesis .
    qed
  next
    case False
    then have "terms \<in> set ts" using Cons.prems(2) by simp
    moreover have "set ts \<subseteq> set XTERMS" using Cons.prems(3) by simp
    ultimately show ?thesis using l Cons.IH by blast
  qed
qed

lemma isoforms_head:
  "isoforms acc cs = Inr (IsoIds, disp) \<Longrightarrow> acc \<in> set IsoIds"
  by (auto simp: isoforms_def split: list.splits sum.splits)

lemma rcross_member:
  "(xdb, rcont) \<in> set xrefs \<Longrightarrow> xdb \<in> set dbs \<Longrightarrow> rcont \<in> set (rcross dbs xrefs xdb)"
  by (force simp: rcross_def)

lemma XTERMS_lookup:
  "xdb \<in> set (map fst XTERMS) \<Longrightarrow> (xdb, the (map_of XTERMS xdb)) \<in> set XTERMS"
  by (auto simp: XTERMS_def)

lemma xref_row_total:
  "(if xdb = ''Ensembl'' then 3 else 2) \<le> length rcont \<Longrightarrow>
   \<exists>cells. xref_row xdb acc disp rcont
            = Inr (cells @ [Str (iso_of acc disp (bracket_field xdb rcont))])"
  by (cases "xdb = ''Ensembl''"; cases "xdb = ''RefSeq''")
     (simp_all add: xref_row_def bracket_field_def)

section \<open>What one pass of a loop joins: lemmas\<close>

lemma index_of_None: "index_of x xs = None \<longleftrightarrow> x \<notin> set xs"
  by (induction xs) auto

lemma index_of_last: "x \<notin> set xs \<Longrightarrow> index_of x (xs @ [x]) = Some (length xs)"
  by (induction xs) auto

lemma remove_nth_snoc: "remove_nth (length xs) (xs @ [x]) = xs"
  by (simp add: remove_nth_def)

lemma CTERMS_entry:
  assumes "terms \<in> set CTERMS"
  shows "XID \<notin> set (map fst (snd terms))" and "snd terms \<noteq> []"
  using assms by (auto simp: CTERMS_def XID_def)

lemma cterm_values_absent:
  "rcross (map fst CTERMS) xrefs (fst terms) = [] \<Longrightarrow>
   cterm_values e st acc xrefs terms
     = Inr (st, (map fst (snd terms), one_row (replicate (length (snd terms)) NaN)))"
  by (simp add: cterm_values_def map_replicate_const)

lemma cterm_step_absent:
  assumes "rcross (map fst CTERMS) xrefs (fst terms) = []"
  shows "cterm_step e st acc IsoIds xrefs terms df1 = Inr (st, df1)"
proof -
  have "DataFrame (map fst (snd terms)) (one_row (replicate (length (snd terms)) NaN))
          = Inr (map fst (snd terms), one_row (replicate (length (snd terms)) NaN))"
    by (simp add: DataFrame_def one_row_def)
  moreover have "dropna_empty (map fst (snd terms), one_row (replicate (length (snd terms)) NaN))"
    by (simp add: dropna_empty_def one_row_def all_nan_replicate)
  ultimately show ?thesis
    by (simp add: cterm_step_def cterm_values_absent [OF assms] join_cterm_def)
qed

lemma cterm_values_shape:
  assumes "cterm_values e st acc xrefs terms = Inr (st', xcols, xvals)"
  shows "length xvals \<le> 1 \<and> (xcols = map fst (snd terms) \<or> xcols = [])"
  using assms
  by (auto simp: cterm_values_def extract_cat_go_def extract_cat_kegg_def
      extract_cat_panther_def extract_cat_reactome_def extract_cat_corum_def one_row_def
      split: list.splits if_splits sum.splits prod.splits)

lemma ffill_from_column:
  assumes "length prev = w" and "\<forall>r\<in>set rs. length r = w \<and> r ! p \<noteq> NaN" and "p < w"
  shows "map (\<lambda>r. r ! p) (ffill_from prev rs) = map (\<lambda>r. r ! p) rs"
  using assms
proof (induction rs arbitrary: prev)
  case Nil
  then show ?case by simp
next
  case (Cons r rs)
  have l: "length (fill_row prev r) = w" using Cons.prems by (simp add: fill_row_def)
  have "fill_row prev r ! p = r ! p" using Cons.prems by (simp add: fill_row_def)
  then show ?case using Cons.IH [OF l] Cons.prems by simp
qed

lemma ffill_column:
  assumes "\<forall>r\<in>set (snd t). length r = w \<and> r ! p \<noteq> NaN" and "p < w"
  shows "map (\<lambda>r. r ! p) (snd (ffill t)) = map (\<lambda>r. r ! p) (snd t)"
proof (cases "snd t")
  case Nil
  then show ?thesis by (simp add: ffill_def)
next
  case (Cons r rs)
  have "map (\<lambda>r. r ! p) (ffill_from r rs) = map (\<lambda>r. r ! p) rs"
    using assms Cons by (intro ffill_from_column [where w = w]) simp_all
  then show ?thesis using Cons by (simp add: ffill_def)
qed

lemma concat_isoid_rows:
  assumes wt: "wf_table t" and l: "length (snd t) \<le> length IsoIds"
  shows "length (snd (concat_axis1 t (isoid_table IsoIds))) = length IsoIds"
    and "\<forall>j<length IsoIds. length (snd (concat_axis1 t (isoid_table IsoIds)) ! j) = Suc (length (fst t))
           \<and> snd (concat_axis1 t (isoid_table IsoIds)) ! j ! length (fst t) = Str (IsoIds ! j)"
proof -
  define n where "n = length IsoIds"
  define A where "A = pad_rows n (length (fst t)) (snd t)"
  have la: "\<forall>r\<in>set A. length r = length (fst t)"
    unfolding A_def using wt by (intro pad_rows_lengths) (simp add: wf_table_def list_all_iff)
  have lA: "length A = n" unfolding A_def using l by (simp add: length_pad_rows n_def)
  have m: "max (length (snd t)) (length IsoIds) = n" using l by (simp add: n_def)
  have B: "pad_rows n k (map (\<lambda>i. [Str i]) IsoIds) = map (\<lambda>i. [Str i]) IsoIds" for k
    by (simp add: pad_rows_def n_def)
  have eq: "snd (concat_axis1 t (isoid_table IsoIds))
              = map (\<lambda>(r, q). r @ q) (zip A (map (\<lambda>i. [Str i]) IsoIds))"
    by (simp add: concat_axis1_def isoid_table_def m A_def B)
  show "length (snd (concat_axis1 t (isoid_table IsoIds))) = length IsoIds"
    unfolding eq using lA by (simp add: n_def)
  show "\<forall>j<length IsoIds. length (snd (concat_axis1 t (isoid_table IsoIds)) ! j) = Suc (length (fst t))
           \<and> snd (concat_axis1 t (isoid_table IsoIds)) ! j ! length (fst t) = Str (IsoIds ! j)"
  proof (intro allI impI)
    fix j assume j: "j < length IsoIds"
    then have "A ! j \<in> set A" using lA by (simp add: n_def)
    then have lj: "length (A ! j) = length (fst t)" using la by blast
    have "snd (concat_axis1 t (isoid_table IsoIds)) ! j = A ! j @ [Str (IsoIds ! j)]"
      unfolding eq using j lA by (simp add: n_def)
    then show "length (snd (concat_axis1 t (isoid_table IsoIds)) ! j) = Suc (length (fst t))
           \<and> snd (concat_axis1 t (isoid_table IsoIds)) ! j ! length (fst t) = Str (IsoIds ! j)"
      using lj by (simp add: nth_append)
  qed
qed

lemma join_cterm_shape:
  assumes wt: "wf_table t" and x: "XID \<notin> set (fst t)" and l: "length (snd t) \<le> 1"
    and ne: "IsoIds \<noteq> []" and j: "join_cterm IsoIds df1 t = Inr df"
  shows "df = df1 \<or> (\<exists>df2. wf_frame df2 \<and> join_outer df1 df2 = Inr df
                        \<and> keys df2 = map Str IsoIds \<and> cols df2 = fst t)"
proof (cases "dropna_empty t")
  case True
  with j show ?thesis by (simp add: join_cterm_def)
next
  case False
  define c where "c = concat_axis1 t (isoid_table IsoIds)"
  define w where "w = length (fst t)"
  from False j obtain df2 where
      df2: "set_index XID (ffill c) = Inr df2" and jo: "join_outer df1 df2 = Inr df"
    by (auto simp: join_cterm_def c_def split: sum.splits)
  have "wf_table (ffill c)"
    unfolding c_def using wt isoid_table_wf by (intro ffill_wf concat_axis1_wf)
  then have wf: "wf_frame df2" using df2 by (rule set_index_wf)
  have li: "length (snd t) \<le> length IsoIds" using l ne by (cases IsoIds) simp_all
  note cr = concat_isoid_rows [OF wt li, folded c_def w_def]
  have fc: "fst (ffill c) = fst t @ [XID]"
    by (simp add: ffill_def c_def concat_axis1_def isoid_table_def)
  have ix: "index_of XID (fst (ffill c)) = Some w"
    unfolding fc w_def using x by (rule index_of_last)
  have rows: "\<forall>r\<in>set (snd c). length r = Suc w \<and> r ! w \<noteq> NaN"
  proof
    fix r assume "r \<in> set (snd c)"
    then obtain i where "i < length IsoIds" "r = snd c ! i"
      using cr(1) by (auto simp: in_set_conv_nth)
    then show "length r = Suc w \<and> r ! w \<noteq> NaN" using cr(2) by simp
  qed
  have "map (\<lambda>r. r ! w) (snd (ffill c)) = map (\<lambda>r. r ! w) (snd c)"
    using rows by (rule ffill_column) simp
  also have "\<dots> = map Str IsoIds"
    using cr by (simp add: list_eq_iff_nth_eq)
  finally have k: "map (\<lambda>r. r ! w) (snd (ffill c)) = map Str IsoIds" .
  have d: "df2 = \<lparr>cols = remove_nth w (fst (ffill c)),
                   rows = map (\<lambda>r. (r ! w, remove_nth w r)) (snd (ffill c))\<rparr>"
    using df2 by (simp add: set_index_def ix)
  have "keys df2 = map Str IsoIds" using k by (simp add: d keys_def comp_def)
  moreover have "cols df2 = fst t" by (simp add: d fc w_def remove_nth_snoc)
  ultimately show ?thesis using wf jo by blast
qed

lemma cterm_step_shape:
  assumes t: "terms \<in> set CTERMS" and ne: "IsoIds \<noteq> []"
    and s: "cterm_step e st acc IsoIds xrefs terms df1 = Inr (st', df)"
  shows "df = df1 \<or> (rcross (map fst CTERMS) xrefs (fst terms) \<noteq> []
                      \<and> (\<exists>df2. wf_frame df2 \<and> join_outer df1 df2 = Inr df
                            \<and> keys df2 = map Str IsoIds \<and> cols df2 = map fst (snd terms)))"
proof (cases "rcross (map fst CTERMS) xrefs (fst terms) = []")
  case True
  then show ?thesis using s by (simp add: cterm_step_absent)
next
  case False
  obtain xcols xvals tt where cv: "cterm_values e st acc xrefs terms = Inr (st', xcols, xvals)"
      and dfr: "DataFrame xcols xvals = Inr tt" and j: "join_cterm IsoIds df1 tt = Inr df"
    using s by (auto simp: cterm_step_def split: sum.splits prod.splits)
  have tt: "tt = (xcols, xvals)" using DataFrame_Inr [OF dfr] by (rule conjunct1)
  have wt: "wf_table tt" using DataFrame_Inr [OF dfr] by (rule conjunct2)
  have sh: "length xvals \<le> 1" "xcols = map fst (snd terms) \<or> xcols = []"
    using cterm_values_shape [OF cv] by simp_all
  show ?thesis
  proof (cases "xcols = []")
    case True
    then have "dropna_empty tt" by (simp add: dropna_empty_def tt)
    then show ?thesis using j by (simp add: join_cterm_def)
  next
    case nonempty: False
    then have xc: "xcols = map fst (snd terms)" using sh(2) by simp
    have "XID \<notin> set (fst tt)" using CTERMS_entry(1) [OF t] by (simp add: tt xc)
    moreover have "length (snd tt) \<le> 1" using sh(1) by (simp add: tt)
    ultimately have "df = df1 \<or> (\<exists>df2. wf_frame df2 \<and> join_outer df1 df2 = Inr df
                        \<and> keys df2 = map Str IsoIds \<and> cols df2 = fst tt)"
      using wt ne j by (intro join_cterm_shape)
    then show ?thesis using False by (simp add: tt xc)
  qed
qed

lemma xterm_step_shape:
  assumes t: "terms \<in> set XTERMS"
    and s: "xterm_step acc disp IsoIds xrefs terms df1 = Inr df"
  shows "df = df1 \<or> (rcross (map fst XTERMS) xrefs (fst terms) \<noteq> []
                      \<and> (\<exists>df2. wf_frame df2 \<and> join_outer df1 df2 = Inr df
                            \<and> keys df2 = map Str (xref_ids acc disp xrefs (fst terms))
                            \<and> cols df2 = butlast (snd terms)))"
proof (cases "rcross (map fst XTERMS) xrefs (fst terms) = []")
  case True
  then show ?thesis using s by (simp add: xterm_step_absent)
next
  case False
  then show ?thesis using xterm_step_present [OF t False s] by blast
qed

section \<open>Reading the comment on alternative products: lemmas\<close>























section \<open>The columns of the frame of a record: lemmas\<close>

lemma xterm_loop_cols:
  assumes "xterm_loop acc disp IsoIds xrefs ts df1 = Inr df" and "set ts \<subseteq> set XTERMS"
  shows "set (cols df) \<subseteq> set (cols df1)
           \<union> set (concat (map (\<lambda>t. butlast (snd t))
                   (filter (\<lambda>t. rcross (map fst XTERMS) xrefs (fst t) \<noteq> []) ts)))"
  using assms
proof (induction ts arbitrary: df1)
  case Nil
  then show ?case by simp
next
  case (Cons t ts)
  from Cons.prems(1) obtain d where s: "xterm_step acc disp IsoIds xrefs t df1 = Inr d"
      and l: "xterm_loop acc disp IsoIds xrefs ts d = Inr df"
    by (cases "xterm_step acc disp IsoIds xrefs t df1") auto
  have t: "t \<in> set XTERMS" and ts: "set ts \<subseteq> set XTERMS" using Cons.prems(2) by simp_all
  have d: "set (cols d) \<subseteq> set (cols df1)
             \<union> (if rcross (map fst XTERMS) xrefs (fst t) \<noteq> [] then set (butlast (snd t)) else {})"
    using xterm_step_shape [OF t s] by (auto simp: join_outer_cols)
  show ?case using Cons.IH [OF l ts] d by (auto split: if_splits)
qed

lemma cterm_loop_cols:
  assumes "cterm_loop e st acc IsoIds xrefs ts df1 = Inr (st', df)" and "set ts \<subseteq> set CTERMS"
    and "IsoIds \<noteq> []"
  shows "set (cols df) \<subseteq> set (cols df1)
           \<union> set (concat (map (\<lambda>t. map fst (snd t))
                   (filter (\<lambda>t. rcross (map fst CTERMS) xrefs (fst t) \<noteq> []) ts)))"
  using assms
proof (induction ts arbitrary: df1 st)
  case Nil
  then show ?case by simp
next
  case (Cons t ts)
  from Cons.prems(1) obtain st1 d where s: "cterm_step e st acc IsoIds xrefs t df1 = Inr (st1, d)"
      and l: "cterm_loop e st1 acc IsoIds xrefs ts d = Inr (st', df)"
    by (cases "cterm_step e st acc IsoIds xrefs t df1") auto
  have t: "t \<in> set CTERMS" and ts: "set ts \<subseteq> set CTERMS" using Cons.prems(2) by simp_all
  have d: "set (cols d) \<subseteq> set (cols df1)
             \<union> (if rcross (map fst CTERMS) xrefs (fst t) \<noteq> [] then set (map fst (snd t)) else {})"
    using cterm_step_shape [OF t Cons.prems(3) s] by (auto simp: join_outer_cols)
  show ?case using Cons.IH [OF l ts Cons.prems(3)] d by (auto split: if_splits)
qed

lemma create_qreport_record_cols:
  assumes "create_qreport_record e st record = Inr (st', df)"
  shows "set (cols df) \<subseteq> set base_cols \<union> set (present_cols (cross_references record))"
proof -
  obtain acc accs IsoIds disp b d where
      iso: "isoforms acc (comments record) = Inr (IsoIds, disp)"
      and b: "base_frame e record IsoIds = Inr b"
      and xl: "xterm_loop acc disp IsoIds (cross_references record) XTERMS b = Inr d"
      and cl: "cterm_loop e st acc IsoIds (cross_references record) CTERMS d = Inr (st', df)"
    using create_qreport_record_Inr [OF assms] by blast
  have ne: "IsoIds \<noteq> []" using isoforms_head [OF iso] by auto
  have cb: "cols b = base_cols" using b by (rule base_frame_wf(2))
  show ?thesis
    using xterm_loop_cols [OF xl] cterm_loop_cols [OF cl _ ne]
    unfolding cb present_cols_def by auto
qed

lemma XTERMS_cols_table:
  "list_all (\<lambda>t. list_all (\<lambda>c. c \<notin> set (XID # base_cols) \<and> c \<in> set HEADERS
                 \<and> list_all (\<lambda>t'. t' = t \<or> c \<notin> set (butlast (snd t'))) XTERMS
                 \<and> list_all (\<lambda>u. c \<notin> set (map fst (snd u))) CTERMS) (butlast (snd t))) XTERMS"
  by code_simp

lemma CTERMS_cols_table:
  "list_all (\<lambda>t. list_all (\<lambda>c. c \<notin> set (XID # base_cols) \<and> c \<in> set HEADERS
                 \<and> list_all (\<lambda>u. c \<notin> set (butlast (snd u))) XTERMS
                 \<and> list_all (\<lambda>t'. t' = t \<or> c \<notin> set (map fst (snd t'))) CTERMS) (map fst (snd t))) CTERMS"
  by code_simp

lemma XTERMS_cols_apart:
  assumes "t \<in> set XTERMS" and "c \<in> set (butlast (snd t))"
  shows "c \<notin> set (XID # base_cols)"
    and "t' \<in> set XTERMS \<Longrightarrow> t' \<noteq> t \<Longrightarrow> c \<notin> set (butlast (snd t'))"
    and "u \<in> set CTERMS \<Longrightarrow> c \<notin> set (map fst (snd u))"
    and "c \<in> set HEADERS"
  using assms XTERMS_cols_table unfolding list_all_iff by blast+

lemma CTERMS_cols_apart:
  assumes "t \<in> set CTERMS" and "c \<in> set (map fst (snd t))"
  shows "c \<notin> set (XID # base_cols)"
    and "u \<in> set XTERMS \<Longrightarrow> c \<notin> set (butlast (snd u))"
    and "t' \<in> set CTERMS \<Longrightarrow> t' \<noteq> t \<Longrightarrow> c \<notin> set (map fst (snd t'))"
    and "c \<in> set HEADERS"
  using assms CTERMS_cols_table unfolding list_all_iff by blast+

lemma to_file_shape:
  "fst (to_file df) = HEADERS"
  "length (snd (to_file df)) = length (rows df)"
  "\<forall>r\<in>set (snd (to_file df)). length r = length HEADERS"
  by (auto simp: to_file_def reset_index_def)

lemma to_file_absent:
  assumes h: "c \<in> set HEADERS" and a: "c \<notin> set (XID # cols df)"
    and r: "r \<in> set (snd (to_file df))"
  shows "table_cell (to_file df) c r = Some NaN"
proof -
  obtain p where p: "index_of c HEADERS = Some p"
    using h index_of_None [of c HEADERS] by (cases "index_of c HEADERS") auto
  have pl: "p < length HEADERS" and pc: "HEADERS ! p = c"
    using index_of_Some [OF p] by simp_all
  have n: "index_of c (fst (reset_index df)) = None"
    using a by (simp add: index_of_None reset_index_def)
  obtain x where "r = map (\<lambda>h. case index_of h (fst (reset_index df)) of
                           Some p \<Rightarrow> x ! p | None \<Rightarrow> NaN) HEADERS"
    using r by (auto simp: to_file_def)
  then have "r ! p = NaN" using pl pc n by simp
  then show ?thesis by (simp add: table_cell_def to_file_shape(1) p)
qed

lemma present_cols_absent:
  shows "t \<in> set XTERMS \<Longrightarrow> rcross (map fst XTERMS) xrefs (fst t) = []
           \<Longrightarrow> c \<in> set (butlast (snd t)) \<Longrightarrow> c \<notin> set (present_cols xrefs)"
    and "u \<in> set CTERMS \<Longrightarrow> rcross (map fst CTERMS) xrefs (fst u) = []
           \<Longrightarrow> c \<in> set (map fst (snd u)) \<Longrightarrow> c \<notin> set (present_cols xrefs)"
proof -
  assume t: "t \<in> set XTERMS" and a: "rcross (map fst XTERMS) xrefs (fst t) = []"
    and c: "c \<in> set (butlast (snd t))"
  have "c \<notin> set (butlast (snd t'))"
    if "t' \<in> set XTERMS" "rcross (map fst XTERMS) xrefs (fst t') \<noteq> []" for t'
    using that a XTERMS_cols_apart(2) [OF t c, of t'] by auto
  moreover have "c \<notin> set (map fst (snd u))" if "u \<in> set CTERMS" for u
    using that XTERMS_cols_apart(3) [OF t c] by blast
  ultimately show "c \<notin> set (present_cols xrefs)"
    unfolding present_cols_def by auto
next
  assume u: "u \<in> set CTERMS" and a: "rcross (map fst CTERMS) xrefs (fst u) = []"
    and c: "c \<in> set (map fst (snd u))"
  have "c \<notin> set (map fst (snd u'))"
    if "u' \<in> set CTERMS" "rcross (map fst CTERMS) xrefs (fst u') \<noteq> []" for u'
    using that a CTERMS_cols_apart(3) [OF u c, of u'] by auto
  moreover have "c \<notin> set (butlast (snd t))" if "t \<in> set XTERMS" for t
    using that CTERMS_cols_apart(2) [OF u c] by blast
  ultimately show "c \<notin> set (present_cols xrefs)"
    unfolding present_cols_def by auto
qed

lemma absent_column:
  assumes run: "create_qreport_record e st record = Inr (st', df)"
    and c: "c \<in> set HEADERS" "c \<notin> set (XID # base_cols)"
      "c \<notin> set (present_cols (cross_references record))"
  shows "c \<notin> set (cols df) \<and> (\<forall>r\<in>set (snd (to_file df)). table_cell (to_file df) c r = Some NaN)"
proof -
  have n: "c \<notin> set (cols df)" using create_qreport_record_cols [OF run] c(2,3) by auto
  then have "c \<notin> set (XID # cols df)" using c(2) by simp
  then show ?thesis using n to_file_absent [OF c(1)] by blast
qed

section \<open>The number of rows of a label: lemmas\<close>

lemma rows_at_count: "length (rows_at k df) = count_list (keys df) k"
proof -
  have "length (filter (\<lambda>r. fst r = k) rs) = count_list (map fst rs) k"
    for rs :: "(cell \<times> cell list) list"
    by (induction rs) auto
  then show ?thesis by (simp add: rows_at_def keys_def)
qed

lemma count_list_Str: "count_list (map Str xs) (Str i) = count_list xs i"
  by (induction xs) auto

lemma rows_of_count: "length (rows_of k df) = max 1 (length (rows_at k df))"
  by (cases "rows_at k df") (simp_all add: rows_of_alt)

lemma join_outer_rows_count:
  assumes "join_outer df1 df2 = Inr df"
  shows "length (rows_at k df)
           = (if k \<in> set (keys df1) \<union> set (keys df2)
              then max 1 (length (rows_at k df1)) * max 1 (length (rows_at k df2)) else 0)"
proof (cases "k \<in> set (keys df1) \<union> set (keys df2)")
  case True
  then show ?thesis
    using join_outer_count [OF assms True] by (simp add: rows_of_count)
next
  case False
  then have "k \<notin> set (keys df)" using join_outer_keys [OF assms] by simp
  then have "rows_at k df = []" by (simp add: rows_at_empty_iff)
  then show ?thesis using False by simp
qed

lemma join_outer_count_ge:
  assumes "join_outer df1 df2 = Inr df"
  shows "length (rows_at k df1) \<le> length (rows_at k df)"
    and "length (rows_at k df2) \<le> length (rows_at k df)"
proof -
  have z: "length (rows_at k df1) = 0 \<and> length (rows_at k df2) = 0"
    if "k \<notin> set (keys df1) \<union> set (keys df2)"
    using that rows_at_empty_iff [of k df1] rows_at_empty_iff [of k df2] by simp
  have a: "n \<le> max 1 n * max 1 m" for n m :: nat
    by (cases m) (simp_all add: max_def)
  have b: "m \<le> max 1 n * max 1 m" for n m :: nat
    by (cases n) (simp_all add: max_def)
  show "length (rows_at k df1) \<le> length (rows_at k df)"
    using z a unfolding join_outer_rows_count [OF assms] by (auto split: if_splits)
  show "length (rows_at k df2) \<le> length (rows_at k df)"
    using z b unfolding join_outer_rows_count [OF assms] by (auto split: if_splits)
qed

lemma join_outer_count_one:
  assumes "join_outer df1 df2 = Inr df" and "length (rows_at k df1) = 1"
    and "length (rows_at k df2) \<le> 1"
  shows "length (rows_at k df) = 1"
proof -
  have "k \<in> set (keys df1)" using assms(2) rows_at_empty_iff [of k df1] by auto
  then show ?thesis
    using assms(2,3) unfolding join_outer_rows_count [OF assms(1)] by (simp add: max_def)
qed

lemma joins_count_ge: "joins df1 df \<Longrightarrow> length (rows_at k df1) \<le> length (rows_at k df)"
  unfolding joins_def using join_outer_count_ge(1) by blast

lemma xterm_loop_count_ge:
  "xterm_loop acc disp IsoIds xrefs ts df1 = Inr df
     \<Longrightarrow> length (rows_at k df1) \<le> length (rows_at k df)"
proof (induction ts arbitrary: df1)
  case Nil
  then show ?case by simp
next
  case (Cons t ts)
  from Cons.prems obtain d where s: "xterm_step acc disp IsoIds xrefs t df1 = Inr d"
      and l: "xterm_loop acc disp IsoIds xrefs ts d = Inr df"
    by (cases "xterm_step acc disp IsoIds xrefs t df1") auto
  have "length (rows_at k df1) \<le> length (rows_at k d)"
    using xterm_step_joins [OF s] by (rule joins_count_ge)
  then show ?case using Cons.IH [OF l] by simp
qed

lemma cterm_loop_count_ge:
  "cterm_loop e st acc IsoIds xrefs ts df1 = Inr (st', df)
     \<Longrightarrow> length (rows_at k df1) \<le> length (rows_at k df)"
proof (induction ts arbitrary: df1 st)
  case Nil
  then show ?case by simp
next
  case (Cons t ts)
  from Cons.prems obtain st1 d where s: "cterm_step e st acc IsoIds xrefs t df1 = Inr (st1, d)"
      and l: "cterm_loop e st1 acc IsoIds xrefs ts d = Inr (st', df)"
    by (cases "cterm_step e st acc IsoIds xrefs t df1") auto
  have "length (rows_at k df1) \<le> length (rows_at k d)"
    using cterm_step_joins [OF s] by (rule joins_count_ge)
  then show ?case using Cons.IH [OF l] by simp
qed

lemma xterm_loop_family_count:
  assumes "xterm_loop acc disp IsoIds xrefs ts df1 = Inr df"
    and "t \<in> set ts" and "set ts \<subseteq> set XTERMS"
  shows "count_list (xref_ids acc disp xrefs (fst t)) i \<le> length (rows_at (Str i) df)"
  using assms
proof (induction ts arbitrary: df1)
  case Nil
  then show ?case by simp
next
  case (Cons u ts)
  from Cons.prems(1) obtain d where s: "xterm_step acc disp IsoIds xrefs u df1 = Inr d"
      and l: "xterm_loop acc disp IsoIds xrefs ts d = Inr df"
    by (cases "xterm_step acc disp IsoIds xrefs u df1") auto
  show ?case
  proof (cases "t = u")
    case True
    have u: "u \<in> set XTERMS" using Cons.prems(3) by simp
    have "count_list (xref_ids acc disp xrefs (fst u)) i \<le> length (rows_at (Str i) d)"
    proof (cases "rcross (map fst XTERMS) xrefs (fst u) = []")
      case e: True
      then show ?thesis by (simp add: xref_ids_def)
    next
      case False
      obtain df2 where j: "join_outer df1 df2 = Inr d"
          and k: "keys df2 = map Str (xref_ids acc disp xrefs (fst u))"
        using xterm_step_present [OF u False s] by blast
      have "length (rows_at (Str i) df2) = count_list (xref_ids acc disp xrefs (fst u)) i"
        by (simp add: rows_at_count k count_list_Str)
      then show ?thesis using join_outer_count_ge(2) [OF j, of "Str i"] by simp
    qed
    also have "\<dots> \<le> length (rows_at (Str i) df)" using l by (rule xterm_loop_count_ge)
    finally show ?thesis using True by simp
  next
    case False
    then have "t \<in> set ts" using Cons.prems(2) by simp
    moreover have "set ts \<subseteq> set XTERMS" using Cons.prems(3) by simp
    ultimately show ?thesis using l Cons.IH by blast
  qed
qed

lemma xterm_loop_count_one:
  assumes "xterm_loop acc disp IsoIds xrefs ts df1 = Inr df"
    and "set ts \<subseteq> set XTERMS" and "length (rows_at (Str i) df1) = 1"
    and "\<forall>t\<in>set ts. count_list (xref_ids acc disp xrefs (fst t)) i \<le> 1"
  shows "length (rows_at (Str i) df) = 1"
  using assms
proof (induction ts arbitrary: df1)
  case Nil
  then show ?case by simp
next
  case (Cons u ts)
  from Cons.prems(1) obtain d where s: "xterm_step acc disp IsoIds xrefs u df1 = Inr d"
      and l: "xterm_loop acc disp IsoIds xrefs ts d = Inr df"
    by (cases "xterm_step acc disp IsoIds xrefs u df1") auto
  have u: "u \<in> set XTERMS" using Cons.prems(2) by simp
  have d: "length (rows_at (Str i) d) = 1"
    using xterm_step_shape [OF u s]
  proof
    assume "d = df1" then show ?thesis using Cons.prems(3) by simp
  next
    assume "rcross (map fst XTERMS) xrefs (fst u) \<noteq> []
              \<and> (\<exists>df2. wf_frame df2 \<and> join_outer df1 df2 = Inr d
                    \<and> keys df2 = map Str (xref_ids acc disp xrefs (fst u))
                    \<and> cols df2 = butlast (snd u))"
    then obtain df2 where j: "join_outer df1 df2 = Inr d"
        and k: "keys df2 = map Str (xref_ids acc disp xrefs (fst u))" by blast
    have "length (rows_at (Str i) df2) \<le> 1"
      using Cons.prems(4) by (simp add: rows_at_count k count_list_Str)
    with j Cons.prems(3) show ?thesis by (rule join_outer_count_one)
  qed
  show ?case using Cons.IH [OF l _ d] Cons.prems(2,4) by simp
qed

lemma cterm_loop_count_one:
  assumes "cterm_loop e st acc IsoIds xrefs ts df1 = Inr (st', df)"
    and "set ts \<subseteq> set CTERMS" and "length (rows_at (Str i) df1) = 1"
    and "count_list IsoIds i \<le> 1" and "IsoIds \<noteq> []"
  shows "length (rows_at (Str i) df) = 1"
  using assms
proof (induction ts arbitrary: df1 st)
  case Nil
  then show ?case by simp
next
  case (Cons u ts)
  from Cons.prems(1) obtain st1 d where s: "cterm_step e st acc IsoIds xrefs u df1 = Inr (st1, d)"
      and l: "cterm_loop e st1 acc IsoIds xrefs ts d = Inr (st', df)"
    by (cases "cterm_step e st acc IsoIds xrefs u df1") auto
  have u: "u \<in> set CTERMS" using Cons.prems(2) by simp
  have d: "length (rows_at (Str i) d) = 1"
    using cterm_step_shape [OF u Cons.prems(5) s]
  proof
    assume "d = df1" then show ?thesis using Cons.prems(3) by simp
  next
    assume "rcross (map fst CTERMS) xrefs (fst u) \<noteq> []
              \<and> (\<exists>df2. wf_frame df2 \<and> join_outer df1 df2 = Inr d
                    \<and> keys df2 = map Str IsoIds \<and> cols df2 = map fst (snd u))"
    then obtain df2 where j: "join_outer df1 df2 = Inr d"
        and k: "keys df2 = map Str IsoIds" by blast
    have "length (rows_at (Str i) df2) \<le> 1"
      using Cons.prems(4) by (simp add: rows_at_count k count_list_Str)
    with j Cons.prems(3) show ?thesis by (rule join_outer_count_one)
  qed
  show ?case using Cons.IH [OF l _ d] Cons.prems(2,4,5) by simp
qed

lemma join_outer_count_times:
  assumes "join_outer df1 df2 = Inr df" and "1 \<le> length (rows_at k df1)"
  shows "length (rows_at k df) = length (rows_at k df1) * max 1 (length (rows_at k df2))"
proof -
  have "k \<in> set (keys df1)" using assms(2) rows_at_empty_iff [of k df1] by auto
  then show ?thesis
    using assms(2) unfolding join_outer_rows_count [OF assms(1)] by (simp add: max_def)
qed

lemma xterm_loop_count_prod:
  assumes "xterm_loop acc disp IsoIds xrefs ts df1 = Inr df"
    and "set ts \<subseteq> set XTERMS" and "1 \<le> length (rows_at (Str i) df1)"
  shows "length (rows_at (Str i) df)
           = length (rows_at (Str i) df1)
             * prod_list (map (\<lambda>t. max 1 (count_list (xref_ids acc disp xrefs (fst t)) i)) ts)"
  using assms
proof (induction ts arbitrary: df1)
  case Nil
  then show ?case by simp
next
  case (Cons u ts)
  from Cons.prems(1) obtain d where s: "xterm_step acc disp IsoIds xrefs u df1 = Inr d"
      and l: "xterm_loop acc disp IsoIds xrefs ts d = Inr df"
    by (cases "xterm_step acc disp IsoIds xrefs u df1") auto
  have u: "u \<in> set XTERMS" and ts: "set ts \<subseteq> set XTERMS" using Cons.prems(2) by simp_all
  have d: "length (rows_at (Str i) d)
             = length (rows_at (Str i) df1) * max 1 (count_list (xref_ids acc disp xrefs (fst u)) i)"
  proof (cases "rcross (map fst XTERMS) xrefs (fst u) = []")
    case True
    then have "d = df1" using s by (simp add: xterm_step_absent)
    then show ?thesis using True by (simp add: xref_ids_def)
  next
    case False
    obtain df2 where j: "join_outer df1 df2 = Inr d"
        and k: "keys df2 = map Str (xref_ids acc disp xrefs (fst u))"
      using xterm_step_present [OF u False s] by blast
    have "length (rows_at (Str i) df2) = count_list (xref_ids acc disp xrefs (fst u)) i"
      by (simp add: rows_at_count k count_list_Str)
    then show ?thesis using join_outer_count_times [OF j Cons.prems(3)] by simp
  qed
  have "1 \<le> length (rows_at (Str i) d)" using d Cons.prems(3) by (simp add: max_def)
  then show ?case using Cons.IH [OF l ts] d by simp
qed

lemma cterm_loop_count_same:
  assumes "cterm_loop e st acc IsoIds xrefs ts df1 = Inr (st', df)"
    and "set ts \<subseteq> set CTERMS" and "1 \<le> length (rows_at (Str i) df1)"
    and "count_list IsoIds i \<le> 1" and "IsoIds \<noteq> []"
  shows "length (rows_at (Str i) df) = length (rows_at (Str i) df1)"
  using assms
proof (induction ts arbitrary: df1 st)
  case Nil
  then show ?case by simp
next
  case (Cons u ts)
  from Cons.prems(1) obtain st1 d where s: "cterm_step e st acc IsoIds xrefs u df1 = Inr (st1, d)"
      and l: "cterm_loop e st1 acc IsoIds xrefs ts d = Inr (st', df)"
    by (cases "cterm_step e st acc IsoIds xrefs u df1") auto
  have u: "u \<in> set CTERMS" and ts: "set ts \<subseteq> set CTERMS" using Cons.prems(2) by simp_all
  have d: "length (rows_at (Str i) d) = length (rows_at (Str i) df1)"
    using cterm_step_shape [OF u Cons.prems(5) s]
  proof
    assume "d = df1" then show ?thesis by simp
  next
    assume "rcross (map fst CTERMS) xrefs (fst u) \<noteq> []
              \<and> (\<exists>df2. wf_frame df2 \<and> join_outer df1 df2 = Inr d
                    \<and> keys df2 = map Str IsoIds \<and> cols df2 = map fst (snd u))"
    then obtain df2 where j: "join_outer df1 df2 = Inr d"
        and k: "keys df2 = map Str IsoIds" by blast
    have "length (rows_at (Str i) df2) \<le> 1"
      using Cons.prems(4) by (simp add: rows_at_count k count_list_Str)
    then show ?thesis using join_outer_count_times [OF j Cons.prems(3)] by (simp add: max_def)
  qed
  show ?case using Cons.IH [OF l ts] d Cons.prems(3,4,5) by simp
qed

section \<open>The merged rows of an isoform (C1)\<close>

text \<open>
  Claim C1 as stated: the merged rows of a record have exactly one row for each isoform
  id of the table of the metadata, with every declared column, also when a family of
  \<open>XTERMS\<close> has several tuples of one isoform id. \<open>df1.join(df2, how='outer')\<close> joins
  every row of a label in \<open>df1\<close> with every row of that label in \<open>df2\<close>:
  \<open>multi_record\<close> has two tuples of Ensembl, both of its accession, and its merged rows
  have two rows of that accession.
\<close>

theorem rows_of_one_isoform_repeated:
  "isoforms ''P12345'' (comments multi_record) = Inr ([''P12345''], None)
   \<and> xref_ids ''P12345'' None (cross_references multi_record) ''Ensembl'' = [''P12345'', ''P12345'']
   \<and> qreport_frame offline_env empty_cache multi_record = Inr multi_frame
   \<and> keys multi_frame = [Str ''P12345'', Str ''P12345'']
   \<and> length (rows_at (Str ''P12345'') multi_frame) = 2"
  by code_simp


text \<open>
  Claim C1, amended: the merged rows of a record have at least one row for each isoform
  id of the table of the metadata; every row has a cell for each column of the frame,
  whose first columns are those of the metadata and whose other columns are columns of
  families with a cross-reference in the record. An isoform id has at least as many rows
  as a family of \<open>XTERMS\<close> has tuples of it. For an isoform id that the table of the
  metadata holds once, the number of its rows is the product, over the three families of
  \<open>XTERMS\<close>, of the number of tuples of that id in the family, counted as 1 when there is
  none: exactly one row when no family has two tuples of it.
\<close>

theorem merged_rows_of_isoforms:
  assumes run: "create_qreport_record e st record = Inr (st', df)"
    and acc: "accessions record = acc # accs"
    and iso: "isoforms acc (comments record) = Inr (IsoIds, disp)"
  shows "(\<forall>i\<in>set IsoIds. Str i \<in> set (keys df) \<and> 1 \<le> length (rows_at (Str i) df))
       \<and> wf_frame df \<and> take (length base_cols) (cols df) = base_cols
       \<and> set (cols df) \<subseteq> set base_cols \<union> set (present_cols (cross_references record))
       \<and> (\<forall>i\<in>set IsoIds. \<forall>t\<in>set XTERMS.
             count_list (xref_ids acc disp (cross_references record) (fst t)) i
               \<le> length (rows_at (Str i) df))
       \<and> (\<forall>i\<in>set IsoIds. count_list IsoIds i = 1 \<longrightarrow>
             length (rows_at (Str i) df)
               = prod_list (map (\<lambda>t. max 1 (count_list
                                   (xref_ids acc disp (cross_references record) (fst t)) i)) XTERMS))
       \<and> (\<forall>i\<in>set IsoIds.
             count_list IsoIds i = 1
             \<and> (\<forall>t\<in>set XTERMS.
                   count_list (xref_ids acc disp (cross_references record) (fst t)) i \<le> 1)
             \<longrightarrow> length (rows_at (Str i) df) = 1)"
proof -
  obtain b d where b: "base_frame e record IsoIds = Inr b"
      and xl: "xterm_loop acc disp IsoIds (cross_references record) XTERMS b = Inr d"
      and cl: "cterm_loop e st acc IsoIds (cross_references record) CTERMS d = Inr (st', df)"
    using create_qreport_record_Inr [OF run] acc iso by auto
  have c: "carries b df" using run acc iso b by (rule create_qreport_record_carries)
  have cb: "cols b = base_cols" using b by (rule base_frame_wf(2))
  have kb: "keys b = map Str IsoIds" using b by (rule base_frame_keys)
  have ne: "IsoIds \<noteq> []" using isoforms_head [OF iso] by auto
  have nb: "length (rows_at (Str i) b) = count_list IsoIds i" for i
    by (simp add: rows_at_count kb count_list_Str)
  have k: "Str i \<in> set (keys df) \<and> 1 \<le> length (rows_at (Str i) df)" if i: "i \<in> set IsoIds" for i
  proof -
    have m: "Str i \<in> set (keys df)" using c i by (auto simp: carries_def kb)
    then have "rows_at (Str i) df \<noteq> []" by (simp add: rows_at_empty_iff)
    then have "1 \<le> length (rows_at (Str i) df)" by (cases "rows_at (Str i) df") simp_all
    with m show ?thesis by simp
  qed
  have w: "wf_frame df" and tk: "take (length base_cols) (cols df) = base_cols"
    using c by (simp_all add: carries_def cb)
  have lo: "count_list (xref_ids acc disp (cross_references record) (fst t)) i
              \<le> length (rows_at (Str i) df)" if t: "t \<in> set XTERMS" for i t
  proof -
    have "count_list (xref_ids acc disp (cross_references record) (fst t)) i
            \<le> length (rows_at (Str i) d)"
      using xl t by (rule xterm_loop_family_count) simp
    also have "\<dots> \<le> length (rows_at (Str i) df)" using cl by (rule cterm_loop_count_ge)
    finally show ?thesis .
  qed
  have pr: "length (rows_at (Str i) df)
              = prod_list (map (\<lambda>t. max 1 (count_list
                                  (xref_ids acc disp (cross_references record) (fst t)) i)) XTERMS)"
    if one: "count_list IsoIds i = 1" for i
  proof -
    have b1: "1 \<le> length (rows_at (Str i) b)" using one by (simp add: nb)
    have dd: "length (rows_at (Str i) d)
                = prod_list (map (\<lambda>t. max 1 (count_list
                                  (xref_ids acc disp (cross_references record) (fst t)) i)) XTERMS)"
      using xterm_loop_count_prod [OF xl _ b1] one by (simp add: nb)
    have d1: "1 \<le> length (rows_at (Str i) d)"
      using b1 xterm_loop_count_ge [OF xl, of "Str i"] by simp
    have "length (rows_at (Str i) df) = length (rows_at (Str i) d)"
      using cterm_loop_count_same [OF cl _ d1 _ ne] one by simp
    then show ?thesis using dd by simp
  qed
  have ex: "length (rows_at (Str i) df) = 1"
    if one: "count_list IsoIds i = 1"
      and le: "\<forall>t\<in>set XTERMS. count_list (xref_ids acc disp (cross_references record) (fst t)) i \<le> 1"
    for i
  proof -
    have b1: "length (rows_at (Str i) b) = 1" using one by (simp add: nb)
    have d1: "length (rows_at (Str i) d) = 1"
      using xterm_loop_count_one [OF xl _ b1 le] by simp
    show ?thesis
      using cterm_loop_count_one [OF cl _ d1 _ ne] one by simp
  qed
  have cs: "set (cols df) \<subseteq> set base_cols \<union> set (present_cols (cross_references record))"
    using run by (rule create_qreport_record_cols)
  show ?thesis using k w tk cs lo pr ex by blast
qed

theorem merged_rows_of_isoforms_witness:
  "Str ''P12345'' \<in> set (keys multi_frame)
   \<and> wf_frame multi_frame
   \<and> length (rows_at (Str ''P12345'') multi_frame) = 2
   \<and> length (rows_at (Str ''P12345'') plain_frame) = 1"
proof -
  have "qreport_frame offline_env empty_cache multi_record = Inr multi_frame"
    and "qreport_frame offline_env empty_cache plain_record = Inr plain_frame"
    by code_simp+
  then obtain st1 st2 where
    run1: "create_qreport_record offline_env empty_cache multi_record = Inr (st1, multi_frame)"
    and run2: "create_qreport_record offline_env empty_cache plain_record = Inr (st2, plain_frame)"
    using qreport_frame_Inr by blast
  have acc1: "accessions multi_record = ''P12345'' # []"
    and iso1: "isoforms ''P12345'' (comments multi_record) = Inr ([''P12345''], None)"
    and acc2: "accessions plain_record = ''P12345'' # []"
    and iso2: "isoforms ''P12345'' (comments plain_record) = Inr ([''P12345''], None)"
    and i: "''P12345'' \<in> set [''P12345'']"
    and one: "count_list [''P12345''] ''P12345'' = 1"
    and p: "prod_list (map (\<lambda>t. max 1 (count_list
              (xref_ids ''P12345'' None (cross_references multi_record) (fst t)) ''P12345'')) XTERMS) = 2"
    and le: "\<forall>t\<in>set XTERMS.
               count_list (xref_ids ''P12345'' None (cross_references plain_record) (fst t)) ''P12345'' \<le> 1"
    by code_simp+
  note t1 = merged_rows_of_isoforms [OF run1 acc1 iso1]
  note t2 = merged_rows_of_isoforms [OF run2 acc2 iso2]
  note a = t1 [THEN conjunct1, THEN bspec, OF i, THEN conjunct1]
  note b = t1 [THEN conjunct2, THEN conjunct1]
  note c = t1 [THEN conjunct2, THEN conjunct2, THEN conjunct2, THEN conjunct2, THEN conjunct2,
               THEN conjunct1, THEN bspec, OF i, THEN mp, OF one]
  note d = t2 [THEN conjunct2, THEN conjunct2, THEN conjunct2, THEN conjunct2, THEN conjunct2,
               THEN conjunct2, THEN bspec, OF i, THEN mp, OF conjI, OF one le]
  show ?thesis using a b c d unfolding p by simp
qed

section \<open>The columns of a family without cross-references (C2)\<close>

text \<open>
  Claim C2 as stated: a family of \<open>XTERMS\<close> or \<open>CTERMS\<close> that the record has no
  cross-reference of gives a table of one row of \<open>NaN\<close>, and the merged rows of the record
  still have the columns of that family. The table is made, but
  \<open>if not df2.dropna(how='all').empty\<close> keeps it out of the join: \<open>plain_record\<close> has no
  cross-reference of RefSeq, and the frame of its merged rows has 10 of the 21 columns,
  without \<open>xref_RefSeq_protId\<close>.
\<close>

theorem per_record_frame_lacks_columns:
  "rcross (map fst XTERMS) (cross_references plain_record) ''RefSeq'' = []
   \<and> xref_values ''P12345'' None (cross_references plain_record)
        (''RefSeq'', [''xref_RefSeq_protId'', ''xref_RefSeq_transcId'', ''Protein''])
       = Inr [[NaN, NaN, NaN]]
   \<and> qreport_frame offline_env empty_cache plain_record = Inr plain_frame
   \<and> ''xref_RefSeq_protId'' \<in> set HEADERS
   \<and> ''xref_RefSeq_protId'' \<notin> set (cols plain_frame)
   \<and> length (cols plain_frame) = 10 \<and> length HEADERS = 21"
  by code_simp


text \<open>
  Claim C2, amended: for a family of \<open>XTERMS\<close> or \<open>CTERMS\<close> that the record has no
  cross-reference of, the values are one row of \<open>NaN\<close>, one cell for each column of the
  family, and the pass of the loop leaves the frame as it is: the frame of the merged
  rows of the record has none of the columns of that family. The columns come back when
  the report is written: \<open>to_file\<close> on the frame of the record gives a table with the
  columns \<open>HEADERS\<close>, one row for each row of the frame with a cell for each column, and
  \<open>NaN\<close> in every column of the family.
\<close>

theorem absent_family_not_joined:
  assumes run: "create_qreport_record e st record = Inr (st', df)"
    and acc: "accessions record = acc # accs"
    and iso: "isoforms acc (comments record) = Inr (IsoIds, disp)"
  shows "(\<forall>terms\<in>set XTERMS.
            rcross (map fst XTERMS) (cross_references record) (fst terms) = [] \<longrightarrow>
              xref_values acc disp (cross_references record) terms
                = Inr [replicate (length (snd terms)) NaN]
              \<and> (\<forall>df1. xterm_step acc disp IsoIds (cross_references record) terms df1 = Inr df1)
              \<and> (\<forall>c\<in>set (butlast (snd terms)).
                    c \<notin> set (cols df)
                    \<and> (\<forall>r\<in>set (snd (to_file df)). table_cell (to_file df) c r = Some NaN)))
       \<and> (\<forall>terms\<in>set CTERMS.
            rcross (map fst CTERMS) (cross_references record) (fst terms) = [] \<longrightarrow>
              (\<forall>st0. cterm_values e st0 acc (cross_references record) terms
                       = Inr (st0, map fst (snd terms), [replicate (length (snd terms)) NaN]))
              \<and> (\<forall>st0 df1. cterm_step e st0 acc IsoIds (cross_references record) terms df1
                             = Inr (st0, df1))
              \<and> (\<forall>c\<in>set (map fst (snd terms)).
                    c \<notin> set (cols df)
                    \<and> (\<forall>r\<in>set (snd (to_file df)). table_cell (to_file df) c r = Some NaN)))
       \<and> fst (to_file df) = HEADERS
       \<and> length (snd (to_file df)) = length (rows df)
       \<and> (\<forall>r\<in>set (snd (to_file df)). length r = length HEADERS)"
proof -
  have x: "xref_values acc disp (cross_references record) terms
               = Inr [replicate (length (snd terms)) NaN]
           \<and> (\<forall>df1. xterm_step acc disp IsoIds (cross_references record) terms df1 = Inr df1)
           \<and> (\<forall>c\<in>set (butlast (snd terms)).
                 c \<notin> set (cols df)
                 \<and> (\<forall>r\<in>set (snd (to_file df)). table_cell (to_file df) c r = Some NaN))"
    if t: "terms \<in> set XTERMS"
      and a: "rcross (map fst XTERMS) (cross_references record) (fst terms) = []" for terms
  proof (intro conjI allI)
    show "xref_values acc disp (cross_references record) terms
            = Inr [replicate (length (snd terms)) NaN]"
      using xref_values_absent [OF a] XTERMS_entry(4) [OF t] by (simp add: one_row_def)
    show "xterm_step acc disp IsoIds (cross_references record) terms df1 = Inr df1" for df1
      using a by (rule xterm_step_absent)
    show "\<forall>c\<in>set (butlast (snd terms)).
            c \<notin> set (cols df)
            \<and> (\<forall>r\<in>set (snd (to_file df)). table_cell (to_file df) c r = Some NaN)"
    proof
      fix c assume c: "c \<in> set (butlast (snd terms))"
      show "c \<notin> set (cols df)
              \<and> (\<forall>r\<in>set (snd (to_file df)). table_cell (to_file df) c r = Some NaN)"
        using run XTERMS_cols_apart(4) [OF t c] XTERMS_cols_apart(1) [OF t c]
          present_cols_absent(1) [OF t a c]
        by (rule absent_column)
    qed
  qed
  have y: "(\<forall>st0. cterm_values e st0 acc (cross_references record) terms
                       = Inr (st0, map fst (snd terms), [replicate (length (snd terms)) NaN]))
           \<and> (\<forall>st0 df1. cterm_step e st0 acc IsoIds (cross_references record) terms df1
                             = Inr (st0, df1))
           \<and> (\<forall>c\<in>set (map fst (snd terms)).
                 c \<notin> set (cols df)
                 \<and> (\<forall>r\<in>set (snd (to_file df)). table_cell (to_file df) c r = Some NaN))"
    if t: "terms \<in> set CTERMS"
      and a: "rcross (map fst CTERMS) (cross_references record) (fst terms) = []" for terms
  proof (intro conjI allI)
    show "cterm_values e st0 acc (cross_references record) terms
            = Inr (st0, map fst (snd terms), [replicate (length (snd terms)) NaN])" for st0
      using cterm_values_absent [OF a] CTERMS_entry(2) [OF t] by (simp add: one_row_def)
    show "cterm_step e st0 acc IsoIds (cross_references record) terms df1 = Inr (st0, df1)"
      for st0 df1
      using a by (rule cterm_step_absent)
    show "\<forall>c\<in>set (map fst (snd terms)).
            c \<notin> set (cols df)
            \<and> (\<forall>r\<in>set (snd (to_file df)). table_cell (to_file df) c r = Some NaN)"
    proof
      fix c assume c: "c \<in> set (map fst (snd terms))"
      show "c \<notin> set (cols df)
              \<and> (\<forall>r\<in>set (snd (to_file df)). table_cell (to_file df) c r = Some NaN)"
        using run CTERMS_cols_apart(4) [OF t c] CTERMS_cols_apart(1) [OF t c]
          present_cols_absent(2) [OF t a c]
        by (rule absent_column)
    qed
  qed
  show ?thesis
    using x y to_file_shape [of df] by blast
qed

theorem absent_family_not_joined_witness:
  "xref_values ''P12345'' None (cross_references plain_record)
        (''RefSeq'', [''xref_RefSeq_protId'', ''xref_RefSeq_transcId'', ''Protein''])
       = Inr [[NaN, NaN, NaN]]
   \<and> xterm_step ''P12345'' None [''P12345''] (cross_references plain_record)
        (''RefSeq'', [''xref_RefSeq_protId'', ''xref_RefSeq_transcId'', ''Protein'']) plain_frame
       = Inr plain_frame
   \<and> ''xref_RefSeq_transcId'' \<notin> set (cols plain_frame)
   \<and> table_cell (to_file plain_frame) ''xref_RefSeq_transcId'' (hd (snd (to_file plain_frame)))
       = Some NaN
   \<and> cterm_values offline_env empty_cache ''P12345'' (cross_references plain_record)
        (''KEGG'', [(''cat_KEGG'', [])])
       = Inr (empty_cache, [''cat_KEGG''], [[NaN]])
   \<and> cterm_step offline_env empty_cache ''P12345'' [''P12345''] (cross_references plain_record)
        (''KEGG'', [(''cat_KEGG'', [])]) plain_frame
       = Inr (empty_cache, plain_frame)
   \<and> ''cat_KEGG'' \<notin> set (cols plain_frame)
   \<and> table_cell (to_file plain_frame) ''cat_KEGG'' (hd (snd (to_file plain_frame))) = Some NaN
   \<and> fst (to_file plain_frame) = HEADERS
   \<and> length (snd (to_file plain_frame)) = length (rows plain_frame)"
proof -
  let ?x = "(''RefSeq'', [''xref_RefSeq_protId'', ''xref_RefSeq_transcId'', ''Protein''])"
  let ?c = "(''KEGG'', [(''cat_KEGG'', [])])"
  have "qreport_frame offline_env empty_cache plain_record = Inr plain_frame"
    by code_simp
  then obtain st' where
    run: "create_qreport_record offline_env empty_cache plain_record = Inr (st', plain_frame)"
    using qreport_frame_Inr by blast
  have acc: "accessions plain_record = ''P12345'' # []"
    and iso: "isoforms ''P12345'' (comments plain_record) = Inr ([''P12345''], None)"
    and x: "?x \<in> set XTERMS"
      "rcross (map fst XTERMS) (cross_references plain_record) (fst ?x) = []"
      "''xref_RefSeq_transcId'' \<in> set (butlast (snd ?x))"
    and c: "?c \<in> set CTERMS"
      "rcross (map fst CTERMS) (cross_references plain_record) (fst ?c) = []"
      "''cat_KEGG'' \<in> set (map fst (snd ?c))"
    and r: "hd (snd (to_file plain_frame)) \<in> set (snd (to_file plain_frame))"
    by code_simp+
  note t = absent_family_not_joined [OF run acc iso]
  note tx = t [THEN conjunct1, THEN bspec, OF x(1), THEN mp, OF x(2)]
  note tc = t [THEN conjunct2, THEN conjunct1, THEN bspec, OF c(1), THEN mp, OF c(2)]
  note tf = t [THEN conjunct2, THEN conjunct2]
  note x1 = tx [THEN conjunct1]
  note x2 = tx [THEN conjunct2, THEN conjunct1, THEN spec, of plain_frame]
  note x3 = tx [THEN conjunct2, THEN conjunct2, THEN bspec, OF x(3)]
  note x4 = x3 [THEN conjunct2, THEN bspec, OF r]
  note c1 = tc [THEN conjunct1, THEN spec, of empty_cache]
  note c2 = tc [THEN conjunct2, THEN conjunct1, THEN spec, THEN spec, of empty_cache plain_frame]
  note c3 = tc [THEN conjunct2, THEN conjunct2, THEN bspec, OF c(3)]
  note c4 = c3 [THEN conjunct2, THEN bspec, OF r]
  show ?thesis
    using x1 x2 x3 x4 c1 c2 c3 c4 tf by (simp add: numeral_3_eq_3)
qed

section \<open>Version suffixes of the identifiers (C3)\<close>

lemma eol_split_no_newline:
  "s \<noteq> [] \<Longrightarrow> last s \<noteq> newline \<Longrightarrow> eol_split s = (s, [])"
  by (simp add: eol_split_def)

lemma digit_not_newline: "is_digit c \<Longrightarrow> c \<noteq> newline"
  by (auto simp: is_digit_def newline_def)

lemma dot_not_digit: "\<not> is_digit CHR ''.''"
  by (simp add: is_digit_def)

text \<open>
  What \<open>strip_version\<close> does to an identifier with a version: a dot and one digit or more
  at the end of the string are removed.
\<close>

lemma strip_version_suffix:
  assumes "ds \<noteq> []" and "list_all is_digit ds"
  shows "strip_version (base @ ''.'' @ ds) = base"
proof -
  let ?s = "base @ ''.'' @ ds"
  have all: "\<And>x. x \<in> set (rev ds) \<Longrightarrow> is_digit x"
    using assms(2) by (simp add: list_all_iff)
  have "is_digit (last ds)"
    using assms by (simp add: list_all_iff)
  then have "last ?s \<noteq> newline"
    using assms(1) digit_not_newline by simp
  then have split: "eol_split ?s = (?s, [])"
    by (simp add: eol_split_no_newline)
  have r: "rev ?s = rev ds @ CHR ''.'' # rev base" by simp
  have "takeWhile is_digit (rev ds @ CHR ''.'' # rev base)
          = rev ds @ takeWhile is_digit (CHR ''.'' # rev base)"
    by (rule takeWhile_append2) (rule all)
  then have tw: "takeWhile is_digit (rev ?s) = rev ds"
    unfolding r using dot_not_digit by simp
  have "dropWhile is_digit (rev ds @ CHR ''.'' # rev base)
          = dropWhile is_digit (CHR ''.'' # rev base)"
    by (rule dropWhile_append2) (rule all)
  then have dw: "dropWhile is_digit (rev ?s) = CHR ''.'' # rev base"
    unfolding r using dot_not_digit by simp
  have "strip_version ?s
          = (if rev ds \<noteq> [] \<and> CHR ''.'' # rev base \<noteq> [] \<and> hd (CHR ''.'' # rev base) = CHR ''.''
             then rev (tl (CHR ''.'' # rev base)) @ [] else ?s)"
    unfolding strip_version_def split by (simp only: Let_def split_conv tw dw)
  then show ?thesis
    using assms(1) by simp
qed

text \<open>
  The rows of Ensembl and RefSeq hold their identifiers through \<open>strip_version\<close>: an
  Ensembl protein \<open>ENSP00000123.4\<close> is emitted as \<open>ENSP00000123\<close>.
\<close>

lemma ensembl_row_stripped:
  "length rcont \<ge> 3 \<Longrightarrow>
   \<exists>i. xref_row ''Ensembl'' acc IsoDisplayed rcont
        = Inr [Str (strip_version (rcont ! 1)), Str (strip_version (rcont ! 0)),
               Str (strip_version (sub_dot_space_tail (rcont ! 2))), Str i]"
  by (simp add: xref_row_def)

lemma refseq_row_stripped:
  "length rcont \<ge> 2 \<Longrightarrow>
   \<exists>i. xref_row ''RefSeq'' acc IsoDisplayed rcont
        = Inr [Str (strip_version (rcont ! 0)),
               Str (strip_version (sub_dot_space_tail (rcont ! 1))), Str i]"
  by (simp add: xref_row_def)

lemma ensembl_row_example:
  "xref_row ''Ensembl'' ''P31946'' (Some ''P31946-1'')
     [''ENST00000353703.9'', ''ENSP00000123.4'', ''ENSG00000166913.13. [P31946-1]'']
   = Inr [Str ''ENSP00000123'', Str ''ENST00000353703'', Str ''ENSG00000166913'', Str ''P31946'']"
  by (simp add: xref_row_def iso_of_def strip_version_def eol_split_def is_digit_def
      newline_def one_line_def is_space_def)

text \<open>
  Claim C3: every identifier that a tuple of Ensembl, RefSeq or CCDS emits has its
  version suffix \<open>.<digits>\<close> removed. The branch for CCDS appends \<open>rcont[0]\<close> as it is,
  without the \<open>re.sub\<close> of the two branches above it: the tuple
  \<open>('CCDS13339.1', '-. [P31946-1]')\<close> emits \<open>CCDS13339.1\<close>, where removing the suffix
  would give \<open>CCDS13339\<close>.
\<close>

theorem ccds_row_keeps_version:
  "xref_row ''CCDS'' ''P31946'' None [''CCDS13339.1'', ''-. [P31946-1]'']
     = Inr [Str ''CCDS13339.1'', Str ''P31946-1'']
   \<and> strip_version ''CCDS13339.1'' = ''CCDS13339''"
  by (simp add: xref_row_def iso_of_def strip_version_def eol_split_def is_digit_def newline_def)

section \<open>The complexes of an accession (C4)\<close>

text \<open>
  A complex that lists the accession as a member passes the test of the extractor, so
  the value is built from every complex of which the accession is a member.
\<close>

lemma corum_member_passes: "acc \<in> member_set s \<Longrightarrow> contains s acc"
  unfolding member_set_def by (rule member_contains)

text \<open>
  Claim C4: the value of CORUM is built from exactly the complexes whose set of member
  accessions contains the primary accession, and a complex of which the accession is not
  a member contributes nothing. The test \<open>acc in person['subunits(UniProt IDs)']\<close> is
  on the string of the subunits, so it looks for a substring: the accession \<open>A0A024\<close> is
  no member of the complex 7, whose one member is \<open>A0A024R161\<close>, and the complex is in
  the value.
\<close>

theorem corum_substring_match:
  "extract_cat_corum (Some example_corum) [(''cat_CORUM'', [])] ''A0A024''
     = Inr ([''cat_CORUM''], [[Str ''compID_7>Test,Complex'']])
   \<and> map subunits example_corum = [Some ''A0A024R161'']
   \<and> ''A0A024'' \<notin> member_set ''A0A024R161''"
  unfolding member_set_def by code_simp

section \<open>The isoform of a cross-reference (C5)\<close>

text \<open>
  Claim C5 as stated: a tuple of Ensembl, RefSeq or CCDS whose annotation in brackets
  names an isoform id that is not among the isoform ids of the record gives a row of the
  primary accession. \<open>i = acc if not y or y[0] == IsoDisplayed else y[0]\<close> compares the
  id with the displayed isoform only and never looks it up in \<open>IsoIds\<close>: the record
  \<open>stray_record\<close> has the isoform ids \<open>[P12345]\<close>, and its tuple of CCDS with
  \<open>[P12345-3]\<close> gives a row of \<open>P12345-3\<close>, which the merged rows keep.
\<close>

theorem stray_isoform_row:
  "isoforms ''P12345'' (comments stray_record) = Inr ([''P12345''], None)
   \<and> cross_references stray_record = [(''CCDS'', [''CCDS1.1'', ''-. [P12345-3]''])]
   \<and> findall_brackets ''-. [P12345-3]'' = [''P12345-3'']
   \<and> xref_row ''CCDS'' ''P12345'' None [''CCDS1.1'', ''-. [P12345-3]'']
       = Inr [Str ''CCDS1.1'', Str ''P12345-3'']
   \<and> map_sum id keys (qreport_frame offline_env empty_cache stray_record)
       = Inr [Str ''P12345'', Str ''P12345-3'']"
  by code_simp


text \<open>
  Claim C5, amended: a tuple of Ensembl, RefSeq or CCDS gives a row of the primary
  accession when its field has no annotation in brackets or when the first id in
  brackets is the displayed isoform. A first id in brackets that is neither the displayed
  isoform nor an isoform id of the record is kept as the isoform id of the row, and is
  not the accession. A tuple with its three (Ensembl) or two fields raises nothing,
  whatever the id, and the merged rows of the record have a row with the id of the tuple.
\<close>

theorem bracketed_isoform_kept:
  assumes acc: "accessions record = acc # accs"
    and iso: "isoforms acc (comments record) = Inr (IsoIds, disp)"
    and x: "(xdb, rcont) \<in> set (cross_references record)"
    and db: "xdb \<in> set (map fst XTERMS)"
  shows "(findall_brackets (bracket_field xdb rcont) = []
            \<or> Some (hd (findall_brackets (bracket_field xdb rcont))) = disp
          \<longrightarrow> iso_of acc disp (bracket_field xdb rcont) = acc)
       \<and> (\<forall>y ys. findall_brackets (bracket_field xdb rcont) = y # ys \<and> Some y \<noteq> disp
                   \<and> y \<notin> set IsoIds
            \<longrightarrow> iso_of acc disp (bracket_field xdb rcont) = y \<and> y \<noteq> acc)
       \<and> ((if xdb = ''Ensembl'' then 3 else 2) \<le> length rcont
            \<longrightarrow> (\<exists>cells. xref_row xdb acc disp rcont
                    = Inr (cells @ [Str (iso_of acc disp (bracket_field xdb rcont))])))
       \<and> (\<forall>st' df. create_qreport_record e st record = Inr (st', df)
            \<longrightarrow> Str (iso_of acc disp (bracket_field xdb rcont)) \<in> set (keys df))"
proof (intro conjI impI allI)
  assume "findall_brackets (bracket_field xdb rcont) = []
            \<or> Some (hd (findall_brackets (bracket_field xdb rcont))) = disp"
  then show "iso_of acc disp (bracket_field xdb rcont) = acc"
    by (auto simp: iso_of_def split: list.splits)
next
  fix y ys
  assume a: "findall_brackets (bracket_field xdb rcont) = y # ys \<and> Some y \<noteq> disp
               \<and> y \<notin> set IsoIds"
  then show "iso_of acc disp (bracket_field xdb rcont) = y" by (simp add: iso_of_def)
  show "y \<noteq> acc" using a isoforms_head [OF iso] by auto
next
  assume "(if xdb = ''Ensembl'' then 3 else 2) \<le> length rcont"
  then show "\<exists>cells. xref_row xdb acc disp rcont
                    = Inr (cells @ [Str (iso_of acc disp (bracket_field xdb rcont))])"
    by (rule xref_row_total)
next
  fix st' df
  assume run: "create_qreport_record e st record = Inr (st', df)"
  then obtain b d where xl: "xterm_loop acc disp IsoIds (cross_references record) XTERMS b = Inr d"
      and cl: "cterm_loop e st acc IsoIds (cross_references record) CTERMS d = Inr (st', df)"
    using create_qreport_record_Inr [OF run] acc iso by auto
  have "rcont \<in> set (rcross (map fst XTERMS) (cross_references record) xdb)"
    using x db by (rule rcross_member)
  then have "iso_of acc disp (bracket_field xdb rcont)
               \<in> set (xref_ids acc disp (cross_references record) xdb)"
    by (simp add: xref_ids_def)
  moreover have "Str ` set (xref_ids acc disp (cross_references record)
                   (fst (xdb, the (map_of XTERMS xdb)))) \<subseteq> set (keys d)"
    using xl XTERMS_lookup [OF db] by (rule xterm_loop_family_keys) simp
  ultimately have "Str (iso_of acc disp (bracket_field xdb rcont)) \<in> set (keys d)" by auto
  then show "Str (iso_of acc disp (bracket_field xdb rcont)) \<in> set (keys df)"
    using cterm_loop_keys [OF cl] by auto
qed

theorem bracketed_isoform_kept_witness:
  "iso_of ''P12345'' None ''-. [P12345-3]'' = ''P12345-3''
   \<and> (\<exists>cells. xref_row ''CCDS'' ''P12345'' None [''CCDS1.1'', ''-. [P12345-3]'']
          = Inr (cells @ [Str ''P12345-3'']))
   \<and> Str ''P12345-3'' \<in> set (keys stray_frame)"
proof -
  have "qreport_frame offline_env empty_cache stray_record = Inr stray_frame"
    by code_simp
  then obtain st' where run:
    "create_qreport_record offline_env empty_cache stray_record = Inr (st', stray_frame)"
    using qreport_frame_Inr by blast
  have acc: "accessions stray_record = ''P12345'' # []"
    and iso: "isoforms ''P12345'' (comments stray_record) = Inr ([''P12345''], None)"
    and x: "(''CCDS'', [''CCDS1.1'', ''-. [P12345-3]'']) \<in> set (cross_references stray_record)"
    and db: "''CCDS'' \<in> set (map fst XTERMS)"
    and f: "findall_brackets (bracket_field ''CCDS'' [''CCDS1.1'', ''-. [P12345-3]''])
              = ''P12345-3'' # []"
    and bf: "bracket_field ''CCDS'' [''CCDS1.1'', ''-. [P12345-3]''] = ''-. [P12345-3]''"
    and n: "''P12345-3'' \<notin> set [''P12345'']"
    by code_simp+
  note t = bracketed_isoform_kept [OF acc iso x db, of offline_env empty_cache]
  have i: "iso_of ''P12345'' None ''-. [P12345-3]'' = ''P12345-3''"
    using t f n unfolding bf by blast
  show ?thesis
    using t run unfolding bf i by simp
qed

section \<open>The isoforms of a record (C6)\<close>




section \<open>Two lookups in the KEGG cache (C7)\<close>

text \<open>
  Claim C7 as stated: two lookups of one identifier, one after the other and with no file
  of the cache deleted between them, call the network at most once in total. It fails
  when the call raises: the exception is caught, no file is written, and the second
  lookup finds no file and calls the network again.
\<close>

theorem kegg_failed_fetch_repeated:
  "snd (kegg_lookup offline_env empty_cache ''hsa:7529'') = None
   \<and> fetched (fst (kegg_lookup offline_env (fst (kegg_lookup offline_env empty_cache ''hsa:7529'')) ''hsa:7529''))
       = [''hsa:7529'', ''hsa:7529'']"
  by (simp add: kegg_lookup_def offline_env_def empty_cache_def no_network_def)

text \<open>
  Claim C7, amended: when the first of the two lookups gives a text (read from a file of
  the cache, or derived from a response that was read or fetched), the second lookup
  gives the same text, calls the network not at all and leaves the cache as it is, so
  that the two call the network at most once; when the call of the first lookup raises,
  nothing is written and nothing is given, and the two lookups call the network at most
  twice. The network of the second lookup may differ from that of the first.
\<close>

theorem kegg_lookup_twice:
  assumes "cached_dir_kegg e' = cached_dir_kegg e"
  shows "(snd (kegg_lookup e st i) \<noteq> None \<longrightarrow>
            kegg_lookup e' (fst (kegg_lookup e st i)) i = kegg_lookup e st i
            \<and> length (fetched (fst (kegg_lookup e st i))) \<le> length (fetched st) + 1)
       \<and> (snd (kegg_lookup e st i) = None \<longrightarrow>
            kegg_get e i = None \<and> fst (kegg_lookup e st i) = st\<lparr>fetched := fetched st @ [i]\<rparr>)
       \<and> length (fetched (fst (kegg_lookup e' (fst (kegg_lookup e st i)) i))) \<le> length (fetched st) + 2"
proof (intro conjI impI)
  assume "snd (kegg_lookup e st i) \<noteq> None"
  then obtain rc where rc: "kegg_lookup e st i = (fst (kegg_lookup e st i), Some rc)"
    by (metis not_None_eq prod.collapse)
  show "kegg_lookup e' (fst (kegg_lookup e st i)) i = kegg_lookup e st i"
    using kegg_second_lookup [OF assms rc] rc by simp
  show "length (fetched (fst (kegg_lookup e st i))) \<le> length (fetched st) + 1"
    using kegg_fetched_grows [of e st i] by auto
next
  assume n: "snd (kegg_lookup e st i) = None"
  then have c: "files st (kegg_txt e i) = None" "files st (kegg_dat e i) = None" "kegg_get e i = None"
    by (simp_all add: kegg_lookup_none)
  show "kegg_get e i = None" by (rule c)
  show "fst (kegg_lookup e st i) = st\<lparr>fetched := fetched st @ [i]\<rparr>"
    using c by (simp add: kegg_lookup_fetch_fail)
next
  show "length (fetched (fst (kegg_lookup e' (fst (kegg_lookup e st i)) i))) \<le> length (fetched st) + 2"
    using kegg_fetched_grows [of e st i] kegg_fetched_grows [of e' "fst (kegg_lookup e st i)" i]
    by auto
qed

theorem kegg_lookup_twice_witness:
  "kegg_lookup online_env (fst (kegg_lookup online_env empty_cache ''hsa:7529'')) ''hsa:7529''
     = kegg_lookup online_env empty_cache ''hsa:7529''
   \<and> snd (kegg_lookup online_env empty_cache ''hsa:7529'') = Some ''hsa04110>Cell cycle;hsa04114>Oocyte meiosis''
   \<and> length (fetched (fst (kegg_lookup online_env empty_cache ''hsa:7529''))) \<le> 1
   \<and> fetched (fst (kegg_lookup offline_env empty_cache ''hsa:7529'')) = [''hsa:7529'']"
proof -
  have d: "cached_dir_kegg online_env = cached_dir_kegg online_env"
    and d': "cached_dir_kegg offline_env = cached_dir_kegg offline_env" by simp_all
  have ok: "snd (kegg_lookup online_env empty_cache ''hsa:7529'') = Some ''hsa04110>Cell cycle;hsa04114>Oocyte meiosis''"
    by code_simp
  have fail: "snd (kegg_lookup offline_env empty_cache ''hsa:7529'') = None"
    by code_simp
  show ?thesis
    using kegg_lookup_twice [OF d, of empty_cache "''hsa:7529''"]
      kegg_lookup_twice [OF d', of empty_cache "''hsa:7529''"] ok fail
    by (simp add: empty_cache_def)
qed

section \<open>Semicolons in the values (C8)\<close>

text \<open>
  Where the program replaces: the description of a Reactome pathway, the whole entry of
  a complex, and the description of a GO entry hold no semicolon.
\<close>

lemma replace_chr: "replace s [d] [r] = map (\<lambda>c. if c = d then r else c) s"
  unfolding replace_def by (induction s) auto

lemma replace_semicolon_free: "CHR '';'' \<notin> set (replace s '';'' '','')"
  by (auto simp: replace_chr)

lemma reactome_entry_text:
  "\<exists>t. reactome_entry (i # flds) = Inr (i @ ''>'' @ t) \<and> CHR '';'' \<notin> set t"
  using replace_semicolon_free by (simp add: reactome_entry_def)

lemma corum_format_semicolon_free: "x \<in> set (corum_format comps) \<Longrightarrow> CHR '';'' \<notin> set x"
  using replace_semicolon_free
  by (auto simp: corum_format_def split: option.splits)

lemma go_entry_text:
  "\<exists>t. go_entry rcont = rcont ! 0 @ ''>'' @ t @ ''|'' @ rcont ! 2 \<and> CHR '';'' \<notin> set t"
  using replace_semicolon_free by (simp add: go_entry_def)

text \<open>
  Claim C8: in the value of every category a semicolon of the free text is replaced by a
  comma before the entries are joined, so that a semicolon only separates entries; also
  in the names of the KEGG pathways and in the evidence of a GO entry. The GO entry
  replaces in \<open>rcont[1]\<close> only and appends the evidence \<open>rcont[2]\<close> as it is, and the KEGG
  entry is built with no \<open>replace\<close> at all: one GO cross-reference and one KEGG pathway
  each give a value of one entry with a semicolon inside.
\<close>

theorem semicolon_kept_in_go_and_kegg:
  "extract_cat_go [[''GO:0005737'', ''C:cytoplasm'', ''IDA:Uni;ProtKB'']]
       [(''cat_GO_C'', ''C''), (''cat_GO_F'', ''F''), (''cat_GO_P'', ''P'')]
     = Inr ([''cat_GO_C'', ''cat_GO_F'', ''cat_GO_P''],
            [[Str ''GO:0005737>C:cytoplasm|IDA:Uni;ProtKB'', NaN, NaN]])
   \<and> map_sum id snd (extract_cat_kegg online_env empty_cache [[''hsa:3101'', ''-'']] [(''cat_KEGG'', [])])
     = Inr ([''cat_KEGG''], [[Str ''hsa00010>Glycolysis; Gluconeogenesis'']])"
  by code_simp

section \<open>A response without pathways (C9)\<close>




section \<open>The metadata on the rows of a record (C10)\<close>

text \<open>
  Claim C10 as stated: in the merged rows of a record the entry name, the gene, the
  species, the description and the class have the same value on every row. A
  cross-reference of an isoform that the record does not declare gets a row of its own
  in the outer join, and that row has \<open>NaN\<close> in the columns of the metadata: the two rows
  of \<open>stray_record\<close> differ in the entry name and in the gene.
\<close>

theorem metadata_null_on_joined_row:
  "qreport_frame offline_env empty_cache stray_record = Inr stray_frame
   \<and> isoforms ''P12345'' (comments stray_record) = Inr ([''P12345''], None)
   \<and> map (cell_of stray_frame ''xref_UniProt_Name'') (rows stray_frame)
       = [Some (Str ''TEST_HUMAN''), Some NaN]
   \<and> map (cell_of stray_frame ''Gene'') (rows stray_frame) = [Some (Str ''TST''), Some NaN]"
  by code_simp

text \<open>
  Claim C10, amended: in the merged rows of a record, every row whose label is an isoform
  id of the record (a row of the table of the metadata) has the entry name, the gene,
  the species, the description and the class of the record; a row with another label,
  which the outer join has added for a cross-reference, has \<open>NaN\<close> in every column of
  the metadata.
\<close>

theorem metadata_on_rows:
  assumes run: "create_qreport_record e st record = Inr (st', df)"
    and acc: "accessions record = acc # accs"
    and iso: "isoforms acc (comments record) = Inr (IsoIds, disp)"
    and r: "r \<in> set (rows df)"
  shows "(fst r \<in> Str ` set IsoIds \<longrightarrow>
            cell_of df ''xref_UniProt_Name'' r = Some (Str (entry_name record))
            \<and> cell_of df ''Gene'' r = Some (Str (gene_of record))
            \<and> cell_of df ''Species'' r = Some (Str (species_of record))
            \<and> cell_of df ''Description'' r = Some (Str (dsc_of record))
            \<and> cell_of df ''prot_UniProt_Class'' r = Some (Str (data_class record)))
       \<and> (fst r \<notin> Str ` set IsoIds \<longrightarrow>
            list_all (\<lambda>name. cell_of df name r = Some NaN) base_cols)"
proof -
  obtain b where b: "base_frame e record IsoIds = Inr b"
    unfolding base_frame_eq by blast
  have c: "carries b df" using run acc iso b by (rule create_qreport_record_carries)
  have cb: "cols b = base_cols" using b by (rule base_frame_wf(2))
  have n: "length (cols b) = 7" by (simp add: cb base_cols_def)
  have kb: "set (keys b) = Str ` set IsoIds" using base_frame_keys [OF b] by simp
  have n': "length base_cols = 7" by (simp add: base_cols_def)
  note cell = carries_cell [OF c r, unfolded cb n']
  note row = carries_row [OF c r, unfolded n kb]
  show ?thesis
  proof (intro conjI impI)
    assume "fst r \<in> Str ` set IsoIds"
    then have "(fst r, take 7 (snd r)) \<in> set (rows b)" using row by simp
    then obtain l x where t: "take 7 (snd r) = base_row record l x"
      using base_frame_rows [OF b] by blast
    show "cell_of df ''xref_UniProt_Name'' r = Some (Str (entry_name record))"
      and "cell_of df ''Gene'' r = Some (Str (gene_of record))"
      and "cell_of df ''Species'' r = Some (Str (species_of record))"
      and "cell_of df ''Description'' r = Some (Str (dsc_of record))"
      and "cell_of df ''prot_UniProt_Class'' r = Some (Str (data_class record))"
      by (simp_all add: cell [OF base_cols_index(1)] cell [OF base_cols_index(2)]
          cell [OF base_cols_index(3)] cell [OF base_cols_index(5)] cell [OF base_cols_index(7)]
          t base_row_def)
  next
    assume "fst r \<notin> Str ` set IsoIds"
    then have t: "take 7 (snd r) = replicate 7 NaN" using row by simp
    have "cell_of df name r = Some NaN" if nm: "name \<in> set base_cols" for name
    proof -
      obtain j where j: "j < 7" "index_of name base_cols = Some j"
        using base_cols_index_ex [OF nm] by blast
      show ?thesis by (simp add: cell [OF j(2)] t j(1))
    qed
    then show "list_all (\<lambda>name. cell_of df name r = Some NaN) base_cols"
      by (simp add: list_all_iff)
  qed
qed

theorem metadata_on_rows_witness:
  "cell_of stray_frame ''xref_UniProt_Name'' (rows stray_frame ! 0) = Some (Str ''TEST_HUMAN'')
   \<and> cell_of stray_frame ''Gene'' (rows stray_frame ! 0) = Some (Str ''TST'')
   \<and> cell_of stray_frame ''Species'' (rows stray_frame ! 0) = Some (Str ''Homo sapiens'')
   \<and> cell_of stray_frame ''Description'' (rows stray_frame ! 0) = Some (Str ''Test protein'')
   \<and> cell_of stray_frame ''prot_UniProt_Class'' (rows stray_frame ! 0) = Some (Str ''Reviewed'')
   \<and> list_all (\<lambda>name. cell_of stray_frame name (rows stray_frame ! 1) = Some NaN) base_cols"
proof -
  have "qreport_frame offline_env empty_cache stray_record = Inr stray_frame"
    by code_simp
  then obtain st' where run: "create_qreport_record offline_env empty_cache stray_record = Inr (st', stray_frame)"
    using qreport_frame_Inr by blast
  have acc: "accessions stray_record = ''P12345'' # []"
    and iso: "isoforms ''P12345'' (comments stray_record) = Inr ([''P12345''], None)"
    and r0: "rows stray_frame ! 0 \<in> set (rows stray_frame)"
    and r1: "rows stray_frame ! 1 \<in> set (rows stray_frame)"
    and k0: "fst (rows stray_frame ! 0) \<in> Str ` set [''P12345'']"
    and k1: "fst (rows stray_frame ! 1) \<notin> Str ` set [''P12345'']"
    and v: "entry_name stray_record = ''TEST_HUMAN''" "gene_of stray_record = ''TST''"
      "species_of stray_record = ''Homo sapiens''" "dsc_of stray_record = ''Test protein''"
      "data_class stray_record = ''Reviewed''"
    by code_simp+
  show ?thesis
    using metadata_on_rows [OF run acc iso r0] metadata_on_rows [OF run acc iso r1] k0 k1
    unfolding v by simp
qed

end
